theory Spec2Isabelle
  imports Main "HOL-Library.Word"
begin

section \<open>Protosite backend: project tree, authorization sessions, GitHub export\<close>

text \<open>
  A shallow embedding of \<^verbatim>\<open>src/backend/express_backend.ts\<close> (class \<^verbatim>\<open>ProtositeBackend\<close>
  and \<^verbatim>\<open>AppSchema\<close>). JavaScript objects are association lists holding the own
  enumerable properties in the order \<^verbatim>\<open>Object.entries\<close> yields them; exceptions are
  values of a sum type; the clock, the random bytes and the answers of the remote
  services are explicit arguments.
\<close>

subsection \<open>The project tree\<close>

text \<open>
  A node of the tree is \<^verbatim>\<open>{ file: { contents } }\<close> or \<^verbatim>\<open>{ directory: { ... } }\<close>.
\<close>

datatype node = File string | Directory "(string \<times> node) list"

type_synonym dir = "(string \<times> node) list"

datatype error =
    TypeError
  | RequestError "nat option"

subsection \<open>Property assignment on a JavaScript object\<close>

text \<open>
  \<^verbatim>\<open>Object.entries\<close> lists the array-index keys (canonical decimal numerals below
  \<open>2^32 - 1\<close>) in ascending numeric order first, then the other keys in the order of
  their creation. \<^verbatim>\<open>obj[k] = v\<close> on an existing key keeps the key's position; on the
  key \<^verbatim>\<open>__proto__\<close> it calls the inherited setter, which changes the prototype and
  creates no own property.
\<close>

definition is_digit :: "char \<Rightarrow> bool" where
  "is_digit c = (48 \<le> (of_char c :: nat) \<and> (of_char c :: nat) \<le> 57)"

definition parse_decimal :: "string \<Rightarrow> nat" where
  "parse_decimal k = foldl (\<lambda>n c. 10 * n + ((of_char c :: nat) - 48)) 0 k"

definition array_index :: "string \<Rightarrow> nat option" where
  "array_index k =
     (if k \<noteq> [] \<and> list_all is_digit k \<and> (k = ''0'' \<or> take 1 k \<noteq> ''0'')
         \<and> parse_decimal k < 4294967295
      then Some (parse_decimal k) else None)"

fun insert_index :: "nat \<Rightarrow> string \<Rightarrow> 'v \<Rightarrow> (string \<times> 'v) list \<Rightarrow> (string \<times> 'v) list" where
  "insert_index n k v [] = [(k, v)]"
| "insert_index n k v ((k', v') # xs) =
     (case array_index k' of
        Some m \<Rightarrow> if m < n then (k', v') # insert_index n k v xs else (k, v) # (k', v') # xs
      | None \<Rightarrow> (k, v) # (k', v') # xs)"

definition obj_replace :: "string \<Rightarrow> 'v \<Rightarrow> (string \<times> 'v) list \<Rightarrow> (string \<times> 'v) list" where
  "obj_replace k v xs = map (\<lambda>(k', v'). if k' = k then (k', v) else (k', v')) xs"

definition obj_set :: "string \<Rightarrow> 'v \<Rightarrow> (string \<times> 'v) list \<Rightarrow> (string \<times> 'v) list" where
  "obj_set k v xs =
     (if k = ''__proto__'' then xs
      else if k \<in> fst ` set xs then obj_replace k v xs
      else case array_index k of
             Some n \<Rightarrow> insert_index n k v xs
           | None \<Rightarrow> xs @ [(k, v)])"

text \<open>
  \<^verbatim>\<open>root.p1.directory. ... .pn.directory[k] = v\<close>: every step of the path reads an own
  property and its \<^verbatim>\<open>directory\<close>; reading a property of \<^verbatim>\<open>undefined\<close> (a missing
  entry, or a file, which has no \<^verbatim>\<open>directory\<close>) throws a TypeError.
\<close>

fun assign_at :: "string list \<Rightarrow> string \<Rightarrow> node \<Rightarrow> dir \<Rightarrow> error + dir" where
  "assign_at [] k v d = Inr (obj_set k v d)"
| "assign_at (p # ps) k v d =
     (case map_of d p of
        Some (Directory sub) \<Rightarrow>
          (case assign_at ps k v sub of
             Inl e \<Rightarrow> Inl e
           | Inr sub' \<Rightarrow> Inr (obj_replace p (Directory sub') d))
      | _ \<Rightarrow> Inl TypeError)"

subsection \<open>AppSchema.getAppSchema: the skeleton\<close>

definition package_json_contents :: string where
  \<open>package_json_contents =
     ''{\<newline>'' @
     ''  "name": "canva-vite-react-app",\<newline>'' @
     ''  "version": "1.0.0",\<newline>'' @
     ''  "description": "Your Canva Design as a Vite + React Project",\<newline>'' @
     ''  "type": "module",\<newline>'' @
     ''  "scripts": {\<newline>'' @
     ''    "dev": "vite",\<newline>'' @
     ''    "build": "vite build",\<newline>'' @
     ''    "preview": "vite preview",\<newline>'' @
     ''    "serve": "vite preview --port 4173"\<newline>'' @
     ''  },\<newline>'' @
     ''  "devDependencies": {\<newline>'' @
     ''    "@vitejs/plugin-react": "^4.0.0",\<newline>'' @
     ''    "vite": "^5.0.0",\<newline>'' @
     ''    "autoprefixer": "^10.4.14",\<newline>'' @
     ''    "postcss": "^8.4.24"\<newline>'' @
     ''  },\<newline>'' @
     ''  "dependencies": {\<newline>'' @
     ''    "react": "^18.2.0",\<newline>'' @
     ''    "react-dom": "^18.2.0",\<newline>'' @
     ''    "react-router-dom": "^6.23.0",\<newline>'' @
     ''    "clsx": "^2.1.0",\<newline>'' @
     ''    "@heroicons/react": "^2.1.0",\<newline>'' @
     ''    "react-icons": "^4.12.0",\<newline>'' @
     ''    "@headlessui/react": "^1.7.0"\<newline>'' @
     ''  },\<newline>'' @
     ''  "keywords": [\<newline>'' @
     ''    "vite",\<newline>'' @
     ''    "react",\<newline>'' @
     ''    "tailwind",\<newline>'' @
     ''    "css",\<newline>'' @
     ''    "frontend",\<newline>'' @
     ''    "modern"\<newline>'' @
     ''  ],\<newline>'' @
     ''  "author": "",\<newline>'' @
     ''  "license": "MIT",\<newline>'' @
     ''  "engines": {\<newline>'' @
     ''    "node": ">=18.0.0"\<newline>'' @
     ''  }\<newline>'' @
     ''}\<newline>''\<close>

definition vite_config_js_contents :: string where
  \<open>vite_config_js_contents =
     ''import { defineConfig } from 'vite'\<newline>'' @
     ''import react from '@vitejs/plugin-react'\<newline>'' @
     ''\<newline>'' @
     ''export default defineConfig({\<newline>'' @
     ''  plugins: [react()],\<newline>'' @
     ''  \<newline>'' @
     ''  // Basic server configuration\<newline>'' @
     ''  server: {\<newline>'' @
     ''    port: 3000,\<newline>'' @
     ''    host: true, // Listen on all addresses\<newline>'' @
     ''    open: true  // Open browser on server start\<newline>'' @
     ''  },\<newline>'' @
     ''  \<newline>'' @
     ''  // Build configuration\<newline>'' @
     ''  build: {\<newline>'' @
     ''    outDir: 'dist',\<newline>'' @
     ''    sourcemap: true,\<newline>'' @
     ''    minify: 'esbuild'\<newline>'' @
     ''  },\<newline>'' @
     ''  \<newline>'' @
     ''  // Public base path\<newline>'' @
     ''  base: './',\<newline>'' @
     ''  \<newline>'' @
     ''  // Define global constants\<newline>'' @
     ''  define: {\<newline>'' @
     ''    __APP_VERSION__: JSON.stringify(process.env.npm_package_version)\<newline>'' @
     ''  }\<newline>'' @
     ''})''\<close>

definition index_html_contents :: string where
  \<open>index_html_contents =
     ''<!DOCTYPE html>\<newline>'' @
     ''<html lang="en">\<newline>'' @
     ''  <head>\<newline>'' @
     ''    <meta charset="UTF-8" />\<newline>'' @
     ''    <link rel="icon" type="image/svg+xml" href="/vite.svg" />\<newline>'' @
     ''    <link rel="preconnect" href="https://fonts.googleapis.com" />\<newline>'' @
     ''    <link rel="preconnect" href="https://fonts.gstatic.com" crossorigin />\<newline>'' @
     ''    <link href="https://fonts.googleapis.com/css2?family=Inter:wght@400;600&display=swap" rel="stylesheet" />\<newline>'' @
     ''    <meta name="viewport" content="width=device-width, initial-scale=1.0" />\<newline>'' @
     ''    <title>Vite App</title>\<newline>'' @
     ''  </head>\<newline>'' @
     ''  <body>\<newline>'' @
     ''    <div id="root"></div>\<newline>'' @
     ''    <script type="module" src="/src/main.jsx"></script>\<newline>'' @
     ''  </body>\<newline>'' @
     ''</html>''\<close>

definition readmeContent :: string where
  \<open>readmeContent =
     ''# Canva Design Export\<newline>'' @
     ''\<newline>'' @
     ''This project was generated from a Canva design using Protosite.\<newline>'' @
     ''\<newline>'' @
     ''## Getting Started\<newline>'' @
     ''\<newline>'' @
     ''```bash\<newline>'' @
     ''npm install\<newline>'' @
     ''npm run dev\<newline>'' @
     ''```\<newline>'' @
     ''\<newline>'' @
     ''## About\<newline>'' @
     ''\<newline>'' @
     ''This application was automatically generated from your Canva design and converted into a working web application.\<newline>''\<close>

definition getAppSchema :: dir where
  "getAppSchema =
     [(''package.json'', File package_json_contents),
      (''vite.config.js'', File vite_config_js_contents),
      (''index.html'', File index_html_contents),
      (''src'', Directory
         [(''components'', Directory []),
          (''styles'', Directory [])])]"

subsection \<open>The generated payload\<close>

text \<open>
  \<^verbatim>\<open>appFiles\<close> is the agent's final output: \<^verbatim>\<open>undefined\<close>, or an object with the
  sections \<^verbatim>\<open>components\<close>, \<^verbatim>\<open>styles\<close> and \<^verbatim>\<open>pages\<close>. A section is absent
  (\<^verbatim>\<open>undefined\<close> or \<^verbatim>\<open>null\<close>), a number or boolean (truthy or not), a string, or
  an object or array, given by its \<^verbatim>\<open>Object.entries\<close>; the values of the entries are
  strings, as the schema \<^verbatim>\<open>z.object({}).catchall(z.string())\<close> types them.
\<close>

datatype payload_section =
    Absent
  | Primitive bool
  | Text string
  | Mapping "(string \<times> string) list"

record payload =
  components :: payload_section
  styles :: payload_section
  pages :: payload_section

fun truthy :: "payload_section \<Rightarrow> bool" where
  "truthy Absent = False"
| "truthy (Primitive b) = b"
| "truthy (Text s) = (s \<noteq> [])"
| "truthy (Mapping es) = True"

fun decimal :: "nat \<Rightarrow> string" where
  "decimal n =
     (if n < 10 then [''0123456789'' ! n]
      else decimal (n div 10) @ [''0123456789'' ! (n mod 10)])"

declare decimal.simps [simp del]

text \<open>\<^verbatim>\<open>Object.entries\<close> of a section: a string yields its characters under their indices.\<close>

fun entries :: "payload_section \<Rightarrow> (string \<times> string) list" where
  "entries Absent = []"
| "entries (Primitive b) = []"
| "entries (Text s) = map (\<lambda>i. (decimal i, [s ! i])) [0..<length s]"
| "entries (Mapping es) = es"

subsection \<open>buildAppHierarchy\<close>

text \<open>One \<^verbatim>\<open>for (const [file, code] of Object.entries(section))\<close> loop.\<close>

fun mergeEntries :: "string list \<Rightarrow> (string \<times> string) list \<Rightarrow> dir \<Rightarrow> error + dir" where
  "mergeEntries path [] appSchema = Inr appSchema"
| "mergeEntries path ((file, code) # es) appSchema =
     (case assign_at path file (File code) appSchema of
        Inl e \<Rightarrow> Inl e
      | Inr appSchema' \<Rightarrow> mergeEntries path es appSchema')"

definition mergeSection :: "string list \<Rightarrow> payload_section \<Rightarrow> dir \<Rightarrow> error + dir" where
  "mergeSection path s appSchema =
     (if truthy s then mergeEntries path (entries s) appSchema else Inr appSchema)"

definition section_of :: "payload option \<Rightarrow> (payload \<Rightarrow> payload_section) \<Rightarrow> payload_section" where
  "section_of appFiles sel = (case appFiles of None \<Rightarrow> Absent | Some p \<Rightarrow> sel p)"

definition buildAppHierarchy :: "payload option \<Rightarrow> error + dir" where
  "buildAppHierarchy appFiles =
     (case mergeSection [''src'', ''components''] (section_of appFiles components) getAppSchema of
        Inl e \<Rightarrow> Inl e
      | Inr s1 \<Rightarrow>
          (case mergeSection [''src'', ''styles''] (section_of appFiles styles) s1 of
             Inl e \<Rightarrow> Inl e
           | Inr s2 \<Rightarrow> mergeSection [''src''] (section_of appFiles pages) s2))"


subsection \<open>The backend state and the upload route\<close>

text \<open>
  The fields of \<^verbatim>\<open>ProtositeBackend\<close> the routes read and write. A session is
  \<^verbatim>\<open>{ timestamp: number; token?: string }\<close>; the session table is a \<^verbatim>\<open>Map\<close> keyed
  by the state token. Times are milliseconds, as \<^verbatim>\<open>Date.now()\<close> gives them.
\<close>

record session =
  timestamp :: int
  token :: "string option"

type_synonym sessions = "string \<rightharpoonup> session"

record backend =
  appStructure :: dir
  githubAuthSessions :: sessions
  GITHUB_CLIENT_ID :: "string option"

text \<open>
  What the outside world answers during one \<^verbatim>\<open>POST /api/upload\<close>: the fetch of the
  image (a thrown error, or a response with its \<^verbatim>\<open>ok\<close> flag and body length), the image
  description (\<open>None\<close> when \<^verbatim>\<open>getImageDesc\<close> throws) and the agent's final output
  (\<open>None\<close> when \<^verbatim>\<open>generateAppContent\<close> throws, \<open>Some None\<close> when it is
  \<^verbatim>\<open>undefined\<close>).
\<close>

datatype fetch_result = FetchThrows | FetchResponse bool nat

record upload_request =
  imageUrl :: "string option"
  fetched :: fetch_result
  described :: "string option"
  generated :: "payload option option"

datatype upload_response =
    UploadStatus nat string
  | UploadSuccess dir
  | UploadThrows string

definition upload :: "upload_request \<Rightarrow> backend \<Rightarrow> upload_response \<times> backend" where
  "upload req b =
     (case imageUrl req of
        None \<Rightarrow> (UploadStatus 400 ''Malformed or invalid URL.'', b)
      | Some url \<Rightarrow>
          if url = [] then (UploadStatus 400 ''Malformed or invalid URL.'', b)
          else (case fetched req of
            FetchThrows \<Rightarrow> (UploadThrows ''Image upload failed. Try again shortly.'', b)
          | FetchResponse ok len \<Rightarrow>
              if \<not> ok then (UploadStatus 500 ''Failed to fetch image from URL.'', b)
              else if len > 10 * 1024 * 1024
                then (UploadStatus 400 ''File too large. Max. size is 10MB'', b)
              else (case described req of
                None \<Rightarrow> (UploadThrows ''Image upload failed. Try again shortly.'', b)
              | Some description \<Rightarrow>
                  (case generated req of
                    None \<Rightarrow> (UploadThrows ''Image upload failed. Try again shortly.'', b)
                  | Some appFiles \<Rightarrow>
                      (case buildAppHierarchy appFiles of
                        Inl e \<Rightarrow> (UploadThrows ''Image upload failed. Try again shortly.'', b)
                      | Inr projectStructure \<Rightarrow>
                          (UploadSuccess projectStructure,
                           b\<lparr>appStructure := projectStructure\<rparr>))))))"

subsection \<open>The authorization routes\<close>

definition cleanupAuthSessions :: "int \<Rightarrow> sessions \<Rightarrow> sessions" where
  "cleanupAuthSessions now ss =
     (\<lambda>state. case ss state of
        None \<Rightarrow> None
      | Some s \<Rightarrow> if timestamp s < now - 10 * 60 * 1000 then None else Some s)"

text \<open>\<^verbatim>\<open>crypto.randomBytes(32).toString("hex")\<close>: two lower-case hex digits a byte.\<close>

definition hex_digit :: "nat \<Rightarrow> char" where
  "hex_digit n = ''0123456789abcdef'' ! (n mod 16)"

definition to_hex :: "8 word list \<Rightarrow> string" where
  "to_hex bs = concat (map (\<lambda>b. [hex_digit (unat b div 16), hex_digit (unat b mod 16)]) bs)"

record json_response =
  status :: nat
  authenticated :: "bool option"
  token_field :: "string option"
  error_field :: "string option"

datatype auth_response =
    AuthError nat string
  | AuthStarted string string

text \<open>
  \<^verbatim>\<open>POST /api/github/auth\<close>. \<open>bytes\<close> are the 32 random bytes, \<open>redirect\<close> the
  URI-encoded callback address. The handler reads \<^verbatim>\<open>Date.now()\<close> twice: \<open>created\<close>
  for the new session's timestamp, \<open>swept\<close> inside cleanupAuthSessions.
\<close>

definition github_auth ::
  "8 word list \<Rightarrow> int \<Rightarrow> int \<Rightarrow> string \<Rightarrow> backend \<Rightarrow> auth_response \<times> backend" where
  "github_auth bytes created swept redirect b =
     (case GITHUB_CLIENT_ID b of
        None \<Rightarrow> (AuthError 500 ''GitHub OAuth not configured'', b)
      | Some client_id \<Rightarrow>
          if client_id = [] then (AuthError 500 ''GitHub OAuth not configured'', b)
          else
            let state = to_hex bytes;
                ss = (githubAuthSessions b)(state \<mapsto> \<lparr>timestamp = created, token = None\<rparr>);
                authUrl = ''https://github.com/login/oauth/authorize?client_id='' @ client_id
                  @ ''&scope=repo&state='' @ state @ ''&redirect_uri='' @ redirect
            in (AuthStarted authUrl state,
                b\<lparr>githubAuthSessions := cleanupAuthSessions swept ss\<rparr>))"

text \<open>
  \<^verbatim>\<open>GET /api/github/callback\<close>. A query parameter is \<open>None\<close> when it is missing or
  not a string. The exchange with the provider throws, or answers a JSON object whose
  \<^verbatim>\<open>access_token\<close> is a string or is missing; it is made only for a known session.
\<close>

datatype exchange = ExchangeThrows | TokenData "string option"

datatype callback_response =
    CallbackStatus nat string
  | ConnectedPage
  | ConnectionFailedPage

definition github_callback ::
  "string option \<Rightarrow> string option \<Rightarrow> exchange \<Rightarrow> backend \<Rightarrow> callback_response \<times> backend" where
  "github_callback code state ex b =
     (case (code, state) of
        (Some c, Some st) \<Rightarrow>
          if c = [] \<or> st = [] then (CallbackStatus 400 ''Invalid callback parameters'', b)
          else (case githubAuthSessions b st of
            None \<Rightarrow> (CallbackStatus 400 ''Invalid or expired authentication session'', b)
          | Some s \<Rightarrow>
              (case ex of
                 ExchangeThrows \<Rightarrow> (ConnectionFailedPage, b)
               | TokenData None \<Rightarrow> (ConnectionFailedPage, b)
               | TokenData (Some access_token) \<Rightarrow>
                   if access_token = [] then (ConnectionFailedPage, b)
                   else (ConnectedPage,
                         b\<lparr>githubAuthSessions :=
                              (githubAuthSessions b)(st \<mapsto> s\<lparr>token := Some access_token\<rparr>)\<rparr>)))
      | _ \<Rightarrow> (CallbackStatus 400 ''Invalid callback parameters'', b))"

definition callback_status :: "callback_response \<Rightarrow> nat" where
  "callback_status r =
     (case r of CallbackStatus n m \<Rightarrow> n | ConnectedPage \<Rightarrow> 200 | ConnectionFailedPage \<Rightarrow> 500)"

text \<open>\<^verbatim>\<open>POST /api/github/auth/status\<close>.\<close>

definition github_auth_status ::
  "string option \<Rightarrow> int \<Rightarrow> backend \<Rightarrow> json_response \<times> backend" where
  "github_auth_status state now b =
     (case state of
        None \<Rightarrow>
          (\<lparr>status = 400, authenticated = None, token_field = None,
            error_field = Some ''Invalid state parameter''\<rparr>, b)
      | Some st \<Rightarrow>
          if st = [] then
            (\<lparr>status = 400, authenticated = None, token_field = None,
              error_field = Some ''Invalid state parameter''\<rparr>, b)
          else (case githubAuthSessions b st of
            None \<Rightarrow>
              (\<lparr>status = 404, authenticated = Some False, token_field = None,
                error_field = Some ''Session not found''\<rparr>, b)
          | Some s \<Rightarrow>
              if now - timestamp s > 10 * 60 * 1000 then
                (\<lparr>status = 410, authenticated = Some False, token_field = None,
                  error_field = Some ''Session expired''\<rparr>,
                 b\<lparr>githubAuthSessions := (githubAuthSessions b)(st := None)\<rparr>)
              else (case token s of
                Some t \<Rightarrow>
                  if t \<noteq> [] then
                    (\<lparr>status = 200, authenticated = Some True, token_field = Some t,
                      error_field = None\<rparr>, b)
                  else
                    (\<lparr>status = 200, authenticated = Some False, token_field = None,
                      error_field = None\<rparr>, b)
              | None \<Rightarrow>
                  (\<lparr>status = 200, authenticated = Some False, token_field = None,
                    error_field = None\<rparr>, b))))"

text \<open>The four answers of the status route, by name.\<close>

definition NotFound :: json_response where
  "NotFound = \<lparr>status = 404, authenticated = Some False, token_field = None,
     error_field = Some ''Session not found''\<rparr>"

definition Expired :: json_response where
  "Expired = \<lparr>status = 410, authenticated = Some False, token_field = None,
     error_field = Some ''Session expired''\<rparr>"

definition Pending :: json_response where
  "Pending = \<lparr>status = 200, authenticated = Some False, token_field = None,
     error_field = None\<rparr>"

definition Authorized :: "string \<Rightarrow> json_response" where
  "Authorized t = \<lparr>status = 200, authenticated = Some True, token_field = Some t,
     error_field = None\<rparr>"

text \<open>A sequence of requests to the three authorization routes, served one after another.\<close>

datatype auth_event =
    Auth "8 word list" int int string
  | Callback "string option" "string option" exchange
  | Status "string option" int

fun serve :: "auth_event \<Rightarrow> backend \<Rightarrow> backend" where
  "serve (Auth bytes created swept redirect) b = snd (github_auth bytes created swept redirect b)"
| "serve (Callback code state ex) b = snd (github_callback code state ex b)"
| "serve (Status state now) b = snd (github_auth_status state now b)"

fun serve_all :: "auth_event list \<Rightarrow> backend \<Rightarrow> backend" where
  "serve_all [] b = b"
| "serve_all (e # es) b = serve_all es (serve e b)"

subsection \<open>The hosting provider\<close>

text \<open>
  The four Octokit operations the export uses, over a provider state \<open>'w\<close> the
  backend does not see. Each answers or throws; a thrown request error carries its HTTP
  status when there is one. \<^verbatim>\<open>getContent\<close> answers an array for a directory, and for a
  single object its \<^verbatim>\<open>type\<close> and \<^verbatim>\<open>sha\<close>.
\<close>

fun error_status :: "error \<Rightarrow> nat option" where
  "error_status TypeError = None"
| "error_status (RequestError st) = st"

datatype existing =
    ExistingFile string
  | ExistingDirectory
  | ExistingOther

record put_params =
  owner :: string
  repo :: string
  path :: string
  message :: string
  content :: string
  sha :: "string option"

record 'w octokit =
  getAuthenticated :: "'w \<Rightarrow> (error + string) \<times> 'w"
  createForAuthenticatedUser :: "string \<Rightarrow> string \<Rightarrow> 'w \<Rightarrow> (error + string) \<times> 'w"
  getContent :: "string \<Rightarrow> string \<Rightarrow> string \<Rightarrow> 'w \<Rightarrow> (error + existing) \<times> 'w"
  createOrUpdateFileContents :: "put_params \<Rightarrow> 'w \<Rightarrow> (error + unit) \<times> 'w"

text \<open>The requests made to the provider, in order, each with the answer it got.\<close>

datatype call =
    GetContent string string string "error + existing"
  | PutContent put_params "error + unit"

subsection \<open>createOrUpdateFile\<close>

text \<open>
  The result is what the function returns or throws, the provider's state afterwards,
  and the requests it made. \<^verbatim>\<open>content\<close> is sent base64-encoded; the parameters here
  hold the text that is encoded. \<^verbatim>\<open>if (sha)\<close> tests for a non-empty string.
\<close>

definition createOrUpdateFile ::
  "'w octokit \<Rightarrow> string \<Rightarrow> string \<Rightarrow> string \<Rightarrow> string \<Rightarrow> string \<Rightarrow> 'w
     \<Rightarrow> (error + unit) \<times> 'w \<times> call list" where
  "createOrUpdateFile gh ownr rp pth cntnt msg w =
     (let (looked, w1) = getContent gh ownr rp pth w;
          c1 = GetContent ownr rp pth looked;
          write = (\<lambda>sh.
            let params = \<lparr>owner = ownr, repo = rp, path = pth, message = msg,
                          content = cntnt, sha = sh\<rparr>;
                (res, w2) = createOrUpdateFileContents gh params w1
            in (res, w2, [c1, PutContent params res]))
      in case looked of
           Inl e \<Rightarrow> if error_status e \<noteq> Some 404 then (Inl e, w1, [c1]) else write None
         | Inr (ExistingFile s) \<Rightarrow> write (if s \<noteq> [] then Some s else None)
         | Inr ExistingDirectory \<Rightarrow> write None
         | Inr ExistingOther \<Rightarrow> write None)"

subsection \<open>createFiles\<close>

text \<open>
  \<open>createFiles\<close> is the method; \<open>createEntries\<close> is its \<^verbatim>\<open>for\<close> loop over
  \<^verbatim>\<open>Object.entries(directoryObj)\<close>. An error thrown by a write leaves the loop and the
  method at once. A value that has neither a \<^verbatim>\<open>file\<close> nor a \<^verbatim>\<open>directory\<close> is passed
  over by the loop and is not a node here. The 100 ms pause after a file is not modelled.
\<close>

fun createFiles ::
  "'w octokit \<Rightarrow> string \<Rightarrow> string \<Rightarrow> string \<Rightarrow> dir \<Rightarrow> 'w \<Rightarrow> (error + unit) \<times> 'w \<times> call list"
and createEntries ::
  "'w octokit \<Rightarrow> string \<Rightarrow> string \<Rightarrow> string \<Rightarrow> dir \<Rightarrow> 'w \<Rightarrow> (error + unit) \<times> 'w \<times> call list"
where
  "createFiles gh ownr rp currentPath directoryObj w =
     (case createEntries gh ownr rp currentPath directoryObj w of
        (Inl e, w1, cs) \<Rightarrow> (Inl e, w1, cs)
      | (Inr u, w1, cs) \<Rightarrow>
          (case createOrUpdateFile gh ownr rp ''README.md'' readmeContent ''Add README'' w1 of
             (r, w2, cs2) \<Rightarrow> (r, w2, cs @ cs2)))"
| "createEntries gh ownr rp currentPath [] w = (Inr (), w, [])"
| "createEntries gh ownr rp currentPath ((key, val) # rest) w =
     (let fullPath = (if currentPath \<noteq> [] then currentPath @ ''/'' @ key else key);
          (r, w1, cs) =
            (case val of
               File cntnt \<Rightarrow>
                 createOrUpdateFile gh ownr rp fullPath cntnt (''Add '' @ fullPath) w
             | Directory d \<Rightarrow> createFiles gh ownr rp fullPath d w)
      in case r of
           Inl e \<Rightarrow> (Inl e, w1, cs)
         | Inr u \<Rightarrow>
             (case createEntries gh ownr rp currentPath rest w1 of
                (r2, w2, cs2) \<Rightarrow> (r2, w2, cs @ cs2)))"

declare createFiles.simps [simp del]

subsection \<open>The export route\<close>

text \<open>
  \<^verbatim>\<open>POST /api/github/export\<close>. The body fields are \<open>None\<close> when missing. The handler
  reads \<^verbatim>\<open>projectData.src\<close> for its log line before it validates, so a missing
  \<^verbatim>\<open>projectData\<close> throws inside the \<^verbatim>\<open>try\<close>.
\<close>

record export_request =
  export_token :: "string option"
  projectData :: "dir option"
  repoName :: "string option"
  description :: "string option"

record export_response =
  export_status :: nat
  success :: "bool option"
  repoUrl :: "string option"
  export_error :: "string option"

definition export_failure :: "error \<Rightarrow> export_response" where
  "export_failure e =
     \<lparr>export_status = 500, success = Some False, repoUrl = None,
      export_error = Some
        (if error_status e = Some 401 then ''GitHub authentication expired. Please reconnect.''
         else if error_status e = Some 422 then ''Repository name already exists. Please try again.''
         else ''Failed to export to GitHub'')\<rparr>"

definition missing_parameters :: export_response where
  "missing_parameters =
     \<lparr>export_status = 400, success = None, repoUrl = None,
      export_error = Some ''Missing required parameters''\<rparr>"

definition github_export ::
  "'w octokit \<Rightarrow> export_request \<Rightarrow> 'w \<Rightarrow> export_response \<times> 'w \<times> call list" where
  "github_export gh req w =
     (case projectData req of
        None \<Rightarrow> (export_failure TypeError, w, [])
      | Some tree \<Rightarrow>
          (case (export_token req, repoName req) of
             (Some tok, Some name) \<Rightarrow>
               if tok = [] \<or> name = [] then (missing_parameters, w, [])
               else
                 (case getAuthenticated gh w of
                    (Inl e, w1) \<Rightarrow> (export_failure e, w1, [])
                  | (Inr login, w1) \<Rightarrow>
                      (case createForAuthenticatedUser gh name
                              (case description req of
                                 None \<Rightarrow> ''Generated from Canva design''
                               | Some d \<Rightarrow> if d \<noteq> [] then d else ''Generated from Canva design'')
                              w1 of
                         (Inl e, w2) \<Rightarrow> (export_failure e, w2, [])
                       | (Inr html_url, w2) \<Rightarrow>
                           (case createFiles gh login name [] tree w2 of
                              (Inl e, w3, cs) \<Rightarrow> (export_failure e, w3, cs)
                            | (Inr u, w3, cs) \<Rightarrow>
                                (\<lparr>export_status = 200, success = Some True,
                                  repoUrl = Some html_url, export_error = None\<rparr>, w3, cs))))
           | _ \<Rightarrow> (missing_parameters, w, [])))"

text \<open>
  A provider that accepts every request, for running the export: its state maps the
  paths written so far to their contents, and a file's \<^verbatim>\<open>sha\<close> is a tag of its path.
\<close>

definition memory_provider :: "(string \<rightharpoonup> string) octokit" where
  "memory_provider =
     \<lparr>getAuthenticated = (\<lambda>w. (Inr ''octocat'', w)),
      createForAuthenticatedUser = (\<lambda>name d w. (Inr (''https://github.com/octocat/'' @ name), w)),
      getContent = (\<lambda>ownr rp pth w.
        (case w pth of
           None \<Rightarrow> Inl (RequestError (Some 404))
         | Some c \<Rightarrow> Inr (ExistingFile (''sha-'' @ pth)), w)),
      createOrUpdateFileContents = (\<lambda>params w.
        (Inr (), w(path params \<mapsto> content params)))\<rparr>"

text \<open>The paths of the write requests among the calls, in order.\<close>

fun written_paths :: "call list \<Rightarrow> string list" where
  "written_paths [] = []"
| "written_paths (GetContent ownr rp pth r # cs) = written_paths cs"
| "written_paths (PutContent params r # cs) = path params # written_paths cs"

text \<open>The number of file leaves of a tree.\<close>

fun count_files :: "dir \<Rightarrow> nat" where
  "count_files [] = 0"
| "count_files ((k, File c) # rest) = Suc (count_files rest)"
| "count_files ((k, Directory d) # rest) = count_files d + count_files rest"

subsection \<open>Notions used to state the properties\<close>

text \<open>
  \<open>assignAll es d\<close> is what a merge loop over the entries \<open>es\<close> makes of the
  directory object \<open>d\<close> it assigns into; \<open>merged_tree\<close> is the skeleton with the
  three loops applied.
\<close>

definition assignAll :: "(string \<times> string) list \<Rightarrow> dir \<Rightarrow> dir" where
  "assignAll es d = foldl (\<lambda>d' (file, code). obj_set file (File code) d') d es"

definition skeleton_files :: dir where
  "skeleton_files =
     [(''package.json'', File package_json_contents),
      (''vite.config.js'', File vite_config_js_contents),
      (''index.html'', File index_html_contents)]"

definition merged_tree ::
  "(string \<times> string) list \<Rightarrow> (string \<times> string) list \<Rightarrow> (string \<times> string) list \<Rightarrow> dir" where
  "merged_tree cs ss ps =
     skeleton_files @
     [(''src'', Directory
        (assignAll ps
           [(''components'', Directory (assignAll cs [])),
            (''styles'', Directory (assignAll ss []))]))]"

text \<open>What a merge loop leaves of an entry whose name the loop assigns.\<close>

definition overwrite :: "(string \<times> string) list \<Rightarrow> string \<times> node \<Rightarrow> string \<times> node" where
  "overwrite es kv =
     (case map_of (rev es) (fst kv) of
        Some c \<Rightarrow> if fst kv = ''__proto__'' then kv else (fst kv, File c)
      | None \<Rightarrow> kv)"

text \<open>The node at a path of names below a directory.\<close>

fun lookup :: "string list \<Rightarrow> dir \<Rightarrow> node option" where
  "lookup [] d = None"
| "lookup [k] d = map_of d k"
| "lookup (k # k' # ks) d =
     (case map_of d k of Some (Directory sub) \<Rightarrow> lookup (k' # ks) sub | _ \<Rightarrow> None)"

text \<open>
  The filenames of a section, and the text a section gives a filename (the last entry
  of that name; the keys of an object are distinct).
\<close>

definition names :: "payload_section \<Rightarrow> string set" where
  "names s = fst ` set (entries s)"

definition content_of :: "payload_section \<Rightarrow> string \<Rightarrow> string option" where
  "content_of s = map_of (rev (entries s))"

text \<open>
  Every entry of every section sits under its subtree with its text, and the three
  root files of the skeleton are as the skeleton has them.
\<close>

definition placed :: "payload \<Rightarrow> dir \<Rightarrow> bool" where
  "placed p t \<longleftrightarrow>
     (\<forall>f c. content_of (components p) f = Some c \<longrightarrow>
        lookup [''src'', ''components'', f] t = Some (File c)) \<and>
     (\<forall>f c. content_of (styles p) f = Some c \<longrightarrow>
        lookup [''src'', ''styles'', f] t = Some (File c)) \<and>
     (\<forall>f c. content_of (pages p) f = Some c \<longrightarrow>
        lookup [''src'', f] t = Some (File c)) \<and>
     lookup [''package.json''] t = Some (File package_json_contents) \<and>
     lookup [''vite.config.js''] t = Some (File vite_config_js_contents) \<and>
     lookup [''index.html''] t = Some (File index_html_contents)"

definition disjoint_names :: "payload \<Rightarrow> bool" where
  "disjoint_names p \<longleftrightarrow>
     names (components p) \<inter> names (styles p) = {} \<and>
     names (components p) \<inter> names (pages p) = {} \<and>
     names (styles p) \<inter> names (pages p) = {}"

text \<open>No directory of a tree lists a name twice.\<close>

fun distinct_names :: "node \<Rightarrow> bool" where
  "distinct_names (File c) = True"
| "distinct_names (Directory d) =
     (distinct (map fst d) \<and> (\<forall>kv \<in> set d. distinct_names (snd kv)))"

text \<open>Every directory of the tree below \<open>d\<close>, and \<open>d\<close> itself, lists no name twice.\<close>

definition dir_ok :: "dir \<Rightarrow> bool" where
  "dir_ok d \<longleftrightarrow> distinct (map fst d) \<and> (\<forall>kv \<in> set d. distinct_names (snd kv))"


text \<open>
  What can take the session with token \<open>st\<close> and timestamp \<open>now\<close> out of the table or
  overwrite it: \<^verbatim>\<open>POST /api/github/auth\<close> drawing the same token, or sweeping at a time
  more than ten minutes after \<open>now\<close>; a status query on \<open>st\<close> at an age beyond ten
  minutes.
\<close>

fun disturbs :: "string \<Rightarrow> int \<Rightarrow> auth_event \<Rightarrow> bool" where
  "disturbs st now (Auth bytes created swept redirect) \<longleftrightarrow>
     to_hex bytes = st \<or> now < swept - 10 * 60 * 1000"
| "disturbs st now (Callback code state ex) \<longleftrightarrow> False"
| "disturbs st now (Status state t) \<longleftrightarrow> state = Some st \<and> t - now > 10 * 60 * 1000"

text \<open>
  The credential a callback request attaches to the session \<open>st\<close>: code and state are
  non-empty strings, the state is \<open>st\<close>, and the exchange answered a non-empty access
  token. \<open>token_after st es tok\<close> is the credential of the last such request of \<open>es\<close>,
  and \<open>tok\<close> when there is none.
\<close>

fun granted :: "string \<Rightarrow> auth_event \<Rightarrow> string option" where
  "granted st (Callback (Some c) (Some st') (TokenData (Some access_token))) =
     (if c \<noteq> [] \<and> st' \<noteq> [] \<and> st' = st \<and> access_token \<noteq> []
      then Some access_token else None)"
| "granted st e = None"

fun token_after :: "string \<Rightarrow> auth_event list \<Rightarrow> string option \<Rightarrow> string option" where
  "token_after st [] tok = tok"
| "token_after st (e # es) tok =
     token_after st es (case granted st e of Some a \<Rightarrow> Some a | None \<Rightarrow> tok)"

subsection \<open>Example inputs\<close>

text \<open>The backend as its constructor leaves it.\<close>

definition initial_backend :: "string option \<Rightarrow> backend" where
  "initial_backend client_id =
     \<lparr>appStructure = getAppSchema, githubAuthSessions = Map.empty,
      GITHUB_CLIENT_ID = client_id\<rparr>"

text \<open>The payload of the specification's scenario, the tree it gives, and an upload of it.\<close>

definition scenario_payload :: payload where
  "scenario_payload =
     \<lparr>components = Mapping [(''Nav.jsx'', ''...'')],
      styles = Mapping [(''index.css'', ''...'')],
      pages = Mapping [(''main.jsx'', ''...'')]\<rparr>"

definition scenario_tree :: dir where
  "scenario_tree =
     skeleton_files @
     [(''src'', Directory
        [(''components'', Directory [(''Nav.jsx'', File ''...'')]),
         (''styles'', Directory [(''index.css'', File ''...'')]),
         (''main.jsx'', File ''...'')])]"

definition scenario_upload :: upload_request where
  "scenario_upload =
     \<lparr>imageUrl = Some ''https://example.com/design.png'',
      fetched = FetchResponse True 1024,
      described = Some ''A landing page'',
      generated = Some (Some scenario_payload)\<rparr>"

text \<open>A payload with a page called like a reserved subtree, and one with a \<^verbatim>\<open>__proto__\<close> key.\<close>

definition reserved_name_payload :: payload where
  "reserved_name_payload =
     \<lparr>components = Mapping [(''Nav.jsx'', ''nav'')],
      styles = Mapping [(''index.css'', ''css'')],
      pages = Mapping [(''components'', ''page'')]\<rparr>"

definition proto_payload :: payload where
  "proto_payload =
     \<lparr>components = Mapping [(''__proto__'', ''nav'')],
      styles = Mapping [],
      pages = Mapping []\<rparr>"

text \<open>An upload that came before: its payload has a page called \<^verbatim>\<open>components\<close>.\<close>

definition earlier_upload :: upload_request where
  "earlier_upload =
     \<lparr>imageUrl = Some ''https://example.com/first.png'',
      fetched = FetchResponse True 2048,
      described = Some ''A blog'',
      generated = Some (Some reserved_name_payload)\<rparr>"

text \<open>The exchange obtained no access token.\<close>

definition exchange_failed :: "exchange \<Rightarrow> bool" where
  "exchange_failed ex =
     (case ex of ExchangeThrows \<Rightarrow> True | TokenData None \<Rightarrow> True | TokenData (Some t) \<Rightarrow> t = [])"

text \<open>
  Two draws of 32 random bytes, and the backend after \<^verbatim>\<open>POST /api/github/auth\<close> at
  time 0 with the first.
\<close>

definition bytes_a :: "8 word list" where
  "bytes_a = [165, 77, 202, 24, 37, 48, 187, 29, 109, 19, 44, 222, 214, 35, 123, 46,
              217, 30, 63, 114, 31, 203, 25, 113, 23, 68, 148, 214, 73, 60, 157, 92]"

definition bytes_b :: "8 word list" where
  "bytes_b = [52, 96, 190, 49, 32, 30, 105, 254, 218, 160, 238, 232, 185, 153, 127, 92,
              124, 41, 153, 253, 175, 229, 147, 37, 60, 214, 84, 175, 77, 250, 215, 20]"

definition connected_backend :: backend where
  "connected_backend = snd (github_auth bytes_a 0 0 ''https%3A%2F%2Fhost%2Fapi%2Fgithub%2Fcallback''
     (initial_backend (Some ''Iv1.0123456789abcdef'')))"

text \<open>
  The error a request aborts the export with, if it does: a failed write, or a failed
  lookup whose status is not 404. \<open>ends_well r cs\<close>: the requests \<open>cs\<close> went through
  when the result \<open>r\<close> is a return, and all but the last did, which failed with the error
  thrown, when it is a throw.
\<close>

fun failure_of :: "call \<Rightarrow> error option" where
  "failure_of (PutContent params (Inl e)) = Some e"
| "failure_of (PutContent params (Inr u)) = None"
| "failure_of (GetContent ownr rp pth (Inl e)) = (if error_status e \<noteq> Some 404 then Some e else None)"
| "failure_of (GetContent ownr rp pth (Inr x)) = None"

fun ends_well :: "error + unit \<Rightarrow> call list \<Rightarrow> bool" where
  "ends_well (Inr u) cs = list_all (\<lambda>c. failure_of c = None) cs"
| "ends_well (Inl e) cs =
     (cs \<noteq> [] \<and> list_all (\<lambda>c. failure_of c = None) (butlast cs) \<and> failure_of (last cs) = Some e)"

text \<open>
  Export requests for the scenario's tree and for a small tree of two levels, and a
  provider that rejects the write of one path.
\<close>

definition scenario_export :: export_request where
  "scenario_export =
     \<lparr>export_token = Some ''gho_credential'', projectData = Some scenario_tree,
      repoName = Some ''site'', description = None\<rparr>"

definition rejecting_provider :: "string \<Rightarrow> (string \<rightharpoonup> string) octokit" where
  "rejecting_provider bad =
     memory_provider\<lparr>createOrUpdateFileContents := (\<lambda>params w.
        if path params = bad then (Inl (RequestError (Some 409)), w)
        else (Inr (), w(path params \<mapsto> content params)))\<rparr>"

definition small_tree :: dir where
  "small_tree =
     [(''a.txt'', File ''A''),
      (''d'', Directory [(''b.txt'', File ''B'')]),
      (''c.txt'', File ''C'')]"

definition small_export :: export_request where
  "small_export =
     \<lparr>export_token = Some ''gho_credential'', projectData = Some small_tree,
      repoName = Some ''site'', description = None\<rparr>"

text \<open>
  The number of directories of a tree below its root, and the paths a walk that meets
  no error writes, in order: the files of a directory, then \<^verbatim>\<open>README.md\<close>.
\<close>

fun count_dirs :: "dir \<Rightarrow> nat" where
  "count_dirs [] = 0"
| "count_dirs ((k, File c) # rest) = count_dirs rest"
| "count_dirs ((k, Directory d) # rest) = Suc (count_dirs d + count_dirs rest)"

fun dir_paths :: "string \<Rightarrow> dir \<Rightarrow> string list"
and entry_paths :: "string \<Rightarrow> dir \<Rightarrow> string list" where
  "dir_paths cur d = entry_paths cur d @ [''README.md'']"
| "entry_paths cur [] = []"
| "entry_paths cur ((key, val) # rest) =
     (let fullPath = (if cur \<noteq> [] then cur @ ''/'' @ key else key)
      in (case val of File c \<Rightarrow> [fullPath] | Directory d \<Rightarrow> dir_paths fullPath d)
         @ entry_paths cur rest)"

declare dir_paths.simps [simp del]

text \<open>
  A payload whose styles are missing, and one whose components are a string and whose
  styles are a number.
\<close>

definition partial_payload :: payload where
  "partial_payload =
     \<lparr>components = Mapping [(''Nav.jsx'', ''nav'')],
      styles = Absent,
      pages = Mapping [(''main.jsx'', ''main'')]\<rparr>"

definition malformed_payload :: payload where
  "malformed_payload =
     \<lparr>components = Text ''ab'', styles = Primitive True, pages = Absent\<rparr>"




text \<open>
  Requests served after the session of \<open>bytes_a\<close> was created at time 0: another
  authorization, a status query, a callback for the other session; then the callback
  for the session itself and a query on the other one.
\<close>

definition waiting_requests :: "auth_event list" where
  "waiting_requests =
     [Auth bytes_b 100000 100000 ''https%3A%2F%2Fhost%2Fapi%2Fgithub%2Fcallback'',
      Status (Some (to_hex bytes_a)) 200000,
      Callback (Some ''code'') (Some (to_hex bytes_b)) (TokenData (Some ''gho_other''))]"

definition authorizing_requests :: "auth_event list" where
  "authorizing_requests =
     waiting_requests @
     [Callback (Some ''code'') (Some (to_hex bytes_a)) (TokenData (Some ''gho_credential'')),
      Status (Some (to_hex bytes_b)) 500000]"

section \<open>Properties\<close>

subsection \<open>Property assignment and the merge loops\<close>

lemma keys_insert_index: "fst ` set (insert_index n k v xs) = insert k (fst ` set xs)"
proof (induction xs)
  case Nil
  show ?case by simp
next
  case (Cons a xs)
  obtain k' v' where a: "a = (k', v')" by (cases a)
  show ?case
    by (cases "array_index k'") (simp_all add: a Cons.IH insert_commute)
qed

lemma map_of_insert_index:
  "k \<notin> fst ` set xs \<Longrightarrow> map_of (insert_index n k v xs) k' = (if k' = k then Some v else map_of xs k')"
proof (induction xs)
  case Nil
  show ?case by simp
next
  case (Cons a xs)
  obtain k1 v1 where a: "a = (k1, v1)" by (cases a)
  from Cons.prems have ne: "k \<noteq> k1" and nin: "k \<notin> fst ` set xs" by (auto simp: a)
  show ?case
    using ne Cons.IH [OF nin] by (cases "array_index k1") (auto simp: a)
qed

lemma distinct_insert_index:
  "distinct (map fst xs) \<Longrightarrow> k \<notin> fst ` set xs \<Longrightarrow> distinct (map fst (insert_index n k v xs))"
proof (induction xs)
  case Nil
  show ?case by simp
next
  case (Cons a xs)
  obtain k1 v1 where a: "a = (k1, v1)" by (cases a)
  from Cons.prems have ne: "k \<noteq> k1" and nin: "k \<notin> fst ` set xs"
    and d: "distinct (map fst xs)" and k1: "k1 \<notin> fst ` set xs" by (auto simp: a)
  show ?case
    using ne nin d k1 Cons.IH [OF d nin] keys_insert_index [of n k v xs]
    by (cases "array_index k1") (simp_all add: a)
qed

lemma obj_replace_Nil: "obj_replace k v [] = []"
  by (simp add: obj_replace_def)

lemma obj_replace_Cons:
  "obj_replace k v ((k', v') # xs) = (k', if k' = k then v else v') # obj_replace k v xs"
  by (simp add: obj_replace_def)

lemma map_fst_obj_replace: "map fst (obj_replace k v xs) = map fst xs"
proof (induction xs)
  case Nil
  show ?case by (simp add: obj_replace_Nil)
next
  case (Cons a xs)
  obtain k1 v1 where a: "a = (k1, v1)" by (cases a)
  show ?case by (simp add: a obj_replace_Cons Cons.IH)
qed

lemma keys_obj_replace: "fst ` set (obj_replace k v xs) = fst ` set xs"
proof -
  have "set (map fst (obj_replace k v xs)) = set (map fst xs)"
    by (simp only: map_fst_obj_replace)
  then show ?thesis by simp
qed

lemma map_of_obj_replace:
  "map_of (obj_replace k v xs) k' = (if k' = k \<and> k \<in> fst ` set xs then Some v else map_of xs k')"
proof (induction xs)
  case Nil
  show ?case by (simp add: obj_replace_Nil)
next
  case (Cons a xs)
  obtain k1 v1 where a: "a = (k1, v1)" by (cases a)
  show ?case using Cons.IH by (force simp: a obj_replace_Cons)
qed

lemma map_of_in_keys: "map_of xs k = Some v \<Longrightarrow> k \<in> fst ` set xs"
  by (drule map_of_SomeD) (rule image_eqI [of _ _ "(k, v)"], simp_all)

lemma keys_obj_set:
  "fst ` set (obj_set k v xs) = (if k = ''__proto__'' then fst ` set xs else insert k (fst ` set xs))"
proof (cases "k = ''__proto__''")
  case True
  then show ?thesis by (simp add: obj_set_def)
next
  case False
  show ?thesis
  proof (cases "k \<in> fst ` set xs")
    case True
    then show ?thesis using False by (simp add: obj_set_def keys_obj_replace insert_absorb)
  next
    case nin: False
    then show ?thesis using False
      by (cases "array_index k") (simp_all add: obj_set_def keys_insert_index)
  qed
qed

lemma map_of_obj_set:
  "map_of (obj_set k v xs) k' = (if k' = k \<and> k \<noteq> ''__proto__'' then Some v else map_of xs k')"
proof (cases "k = ''__proto__''")
  case True
  then show ?thesis by (simp add: obj_set_def)
next
  case False
  show ?thesis
  proof (cases "k \<in> fst ` set xs")
    case True
    then show ?thesis using False by (simp add: obj_set_def map_of_obj_replace)
  next
    case nin: False
    then have none: "map_of xs k = None" by (simp add: map_of_eq_None_iff)
    show ?thesis using False nin none
      by (cases "array_index k") (auto simp: obj_set_def map_of_insert_index map_add_def split: option.splits)
  qed
qed

lemma distinct_obj_set:
  "distinct (map fst xs) \<Longrightarrow> distinct (map fst (obj_set k v xs))"
  by (cases "array_index k") (simp_all add: obj_set_def map_fst_obj_replace distinct_insert_index)

lemma assignAll_Nil: "assignAll [] d = d"
  by (simp add: assignAll_def)

lemma assignAll_Cons: "assignAll ((f, c) # es) d = assignAll es (obj_set f (File c) d)"
  by (simp add: assignAll_def)

lemma assignAll_snoc: "assignAll (es @ [(f, c)]) d = obj_set f (File c) (assignAll es d)"
  by (simp add: assignAll_def)

lemma mergeEntries_Nil_path: "mergeEntries [] es d = Inr (assignAll es d)"
proof (induction es arbitrary: d)
  case Nil
  show ?case by (simp add: assignAll_Nil)
next
  case (Cons a es)
  obtain f c where a: "a = (f, c)" by (cases a)
  show ?case by (simp add: a assignAll_Cons Cons.IH)
qed

lemma obj_replace_absent: "k \<notin> fst ` set xs \<Longrightarrow> obj_replace k v xs = xs"
proof (induction xs)
  case Nil
  show ?case by (simp add: obj_replace_Nil)
next
  case (Cons a xs)
  obtain k1 v1 where a: "a = (k1, v1)" by (cases a)
  from Cons.prems have "k1 \<noteq> k" and "k \<notin> fst ` set xs" by (auto simp: a)
  then show ?case using Cons.IH by (simp add: a obj_replace_Cons)
qed

lemma obj_replace_append:
  "obj_replace k v (xs @ ys) = obj_replace k v xs @ obj_replace k v ys"
  by (simp add: obj_replace_def)

lemma obj_replace_at:
  "p \<notin> fst ` set pre \<Longrightarrow> p \<notin> fst ` set post \<Longrightarrow>
   obj_replace p v (pre @ (p, u) # post) = pre @ (p, v) # post"
  by (simp add: obj_replace_append obj_replace_Cons obj_replace_absent)

lemma map_of_at:
  "p \<notin> fst ` set pre \<Longrightarrow> map_of (pre @ (p, u) # post) p = Some u"
proof (induction pre)
  case Nil
  show ?case by simp
next
  case (Cons a pre)
  obtain k1 v1 where a: "a = (k1, v1)" by (cases a)
  from Cons.prems have "k1 \<noteq> p" and "p \<notin> fst ` set pre" by (auto simp: a)
  then show ?case using Cons.IH by (simp add: a)
qed

lemma assign_at_step:
  assumes "p \<notin> fst ` set pre" "p \<notin> fst ` set post"
  shows "assign_at (p # ps) k v (pre @ (p, Directory sub) # post) =
         (case assign_at ps k v sub of
            Inl e \<Rightarrow> Inl e
          | Inr sub' \<Rightarrow> Inr (pre @ (p, Directory sub') # post))"
proof -
  have m: "map_of (pre @ (p, Directory sub) # post) p = Some (Directory sub)"
    using assms(1) by (rule map_of_at)
  show ?thesis
    unfolding assign_at.simps m
    by (simp add: obj_replace_at [OF assms] split: sum.splits)
qed

lemma mergeEntries_step:
  assumes "p \<notin> fst ` set pre" "p \<notin> fst ` set post"
  shows "mergeEntries (p # ps) es (pre @ (p, Directory sub) # post) =
         (case mergeEntries ps es sub of
            Inl e \<Rightarrow> Inl e
          | Inr sub' \<Rightarrow> Inr (pre @ (p, Directory sub') # post))"
proof (induction es arbitrary: sub)
  case Nil
  show ?case by simp
next
  case (Cons a es)
  obtain f c where a: "a = (f, c)" by (cases a)
  show ?case
  proof (cases "assign_at ps f (File c) sub")
    case (Inl e)
    then show ?thesis by (simp add: a assign_at_step [OF assms] del: assign_at.simps)
  next
    case (Inr sub1)
    then show ?thesis using Cons.IH [of sub1]
      by (simp add: a assign_at_step [OF assms] del: assign_at.simps)
  qed
qed

lemma mergeSection_entries: "mergeSection pth s t = mergeEntries pth (entries s) t"
  by (cases s) (simp_all add: mergeSection_def)

lemma merge_pages:
  assumes "''src'' \<notin> fst ` set files"
  shows "mergeEntries [''src''] es (files @ [(''src'', Directory d)]) =
         Inr (files @ [(''src'', Directory (assignAll es d))])"
  using mergeEntries_step [of "''src''" files "[]" "[]" es d] assms
  by (simp add: mergeEntries_Nil_path)

lemma merge_components:
  assumes "''src'' \<notin> fst ` set files"
  shows "mergeEntries [''src'', ''components''] es
           (files @ [(''src'', Directory [(''components'', Directory c), (''styles'', st)])]) =
         Inr (files @ [(''src'', Directory [(''components'', Directory (assignAll es c)), (''styles'', st)])])"
proof -
  have inner: "mergeEntries [''components''] es [(''components'', Directory c), (''styles'', st)] =
      Inr [(''components'', Directory (assignAll es c)), (''styles'', st)]"
    using mergeEntries_step [of "''components''" "[]" "[(''styles'', st)]" "[]" es c]
    by (simp add: mergeEntries_Nil_path)
  show ?thesis
    using mergeEntries_step [of "''src''" files "[]" "[''components'']" es
        "[(''components'', Directory c), (''styles'', st)]"] assms
    by (simp add: inner)
qed

lemma merge_styles:
  assumes "''src'' \<notin> fst ` set files"
  shows "mergeEntries [''src'', ''styles''] es
           (files @ [(''src'', Directory [(''components'', cn), (''styles'', Directory s)])]) =
         Inr (files @ [(''src'', Directory [(''components'', cn), (''styles'', Directory (assignAll es s))])])"
proof -
  have inner: "mergeEntries [''styles''] es [(''components'', cn), (''styles'', Directory s)] =
      Inr [(''components'', cn), (''styles'', Directory (assignAll es s))]"
    using mergeEntries_step [of "''styles''" "[(''components'', cn)]" "[]" "[]" es s]
    by (simp add: mergeEntries_Nil_path)
  show ?thesis
    using mergeEntries_step [of "''src''" files "[]" "[''styles'']" es
        "[(''components'', cn), (''styles'', Directory s)]"] assms
    by (simp add: inner)
qed

lemma src_not_skeleton_file: "''src'' \<notin> fst ` set skeleton_files"
  by (simp add: skeleton_files_def)

lemma getAppSchema_shape:
  "getAppSchema =
     skeleton_files @ [(''src'', Directory [(''components'', Directory []), (''styles'', Directory [])])]"
  by (simp add: getAppSchema_def skeleton_files_def)

lemma buildAppHierarchy_merged:
  "buildAppHierarchy appFiles =
     Inr (merged_tree (entries (section_of appFiles components))
            (entries (section_of appFiles styles))
            (entries (section_of appFiles pages)))"
  unfolding buildAppHierarchy_def mergeSection_entries getAppSchema_shape
    merge_components [OF src_not_skeleton_file] sum.case
    merge_styles [OF src_not_skeleton_file]
    merge_pages [OF src_not_skeleton_file] merged_tree_def
  by (rule refl)

lemma set_insert_index: "set (insert_index n k v xs) = insert (k, v) (set xs)"
proof (induction xs)
  case Nil
  show ?case by simp
next
  case (Cons a xs)
  obtain k1 v1 where a: "a = (k1, v1)" by (cases a)
  show ?case
    by (cases "array_index k1") (simp_all add: a Cons.IH insert_commute)
qed

lemma obj_replace_map:
  "obj_replace k v xs = map (\<lambda>kv. (fst kv, if fst kv = k then v else snd kv)) xs"
  by (simp add: obj_replace_def case_prod_beta)

lemma in_obj_replace:
  "(k', v') \<in> set (obj_replace k v xs) \<Longrightarrow> (k' = k \<and> v' = v) \<or> ((k', v') \<in> set xs \<and> k' \<noteq> k)"
  by (auto simp: obj_replace_map split: if_splits)

lemma in_obj_set:
  assumes "(k', v') \<in> set (obj_set k v xs)" "k \<noteq> ''__proto__''"
  shows "(k' = k \<and> v' = v) \<or> ((k', v') \<in> set xs \<and> k' \<noteq> k)"
proof (cases "k \<in> fst ` set xs")
  case True
  then show ?thesis using assms in_obj_replace [of k' v' k v xs] by (simp add: obj_set_def)
next
  case False
  then have "set (obj_set k v xs) = insert (k, v) (set xs)"
    using assms(2) by (cases "array_index k") (simp_all add: obj_set_def set_insert_index)
  then show ?thesis using assms(1) False by force
qed

lemma obj_set_proto: "obj_set ''__proto__'' v xs = xs"
  by (simp add: obj_set_def)

lemma obj_set_present:
  "k \<noteq> ''__proto__'' \<Longrightarrow> k \<in> fst ` set xs \<Longrightarrow> obj_set k v xs = obj_replace k v xs"
  by (simp add: obj_set_def)

lemma keys_assignAll:
  "fst ` set (assignAll es d) = fst ` set d \<union> {f \<in> fst ` set es. f \<noteq> ''__proto__''}"
proof (induction es rule: rev_induct)
  case Nil
  show ?case by (simp add: assignAll_Nil)
next
  case (snoc a es)
  obtain f c where a: "a = (f, c)" by (cases a)
  show ?case
    unfolding a assignAll_snoc keys_obj_set snoc.IH by auto
qed

lemma overwrite_Nil: "overwrite [] kv = kv"
  by (simp add: overwrite_def)

lemma overwrite_snoc:
  "overwrite (es @ [(f, c)]) (k, v) =
     (if k = f \<and> f \<noteq> ''__proto__'' then (k, File c) else overwrite es (k, v))"
  by (simp add: overwrite_def split: option.splits)

lemma fst_overwrite: "fst (overwrite es kv) = fst kv"
  by (simp add: overwrite_def split: option.splits)

lemma assignAll_overwrite:
  assumes "\<And>f. f \<in> fst ` set es \<Longrightarrow> f \<noteq> ''__proto__'' \<Longrightarrow> f \<in> fst ` set d"
  shows "assignAll es d = map (overwrite es) d"
  using assms
proof (induction es rule: rev_induct)
  case Nil
  show ?case by (simp add: assignAll_Nil overwrite_Nil [abs_def])
next
  case (snoc a es)
  obtain f c where a: "a = (f, c)" by (cases a)
  have IH: "assignAll es d = map (overwrite es) d"
    using snoc.prems by (intro snoc.IH) auto
  show ?case
  proof (cases "f = ''__proto__''")
    case True
    have "map (overwrite (es @ [(f, c)])) d = map (overwrite es) d"
      by (rule map_cong [OF refl]) (auto simp: overwrite_snoc True)
    then show ?thesis by (simp add: a assignAll_snoc True obj_set_proto IH)
  next
    case False
    have "f \<in> fst ` set d" using snoc.prems [of f] False by (simp add: a)
    then have "f \<in> fst ` set (map (overwrite es) d)"
      by (simp add: image_image fst_overwrite)
    then have "obj_set f (File c) (map (overwrite es) d) =
        obj_replace f (File c) (map (overwrite es) d)"
      using False by (rule obj_set_present [rotated])
    also have "\<dots> = map (overwrite (es @ [(f, c)])) d"
      unfolding obj_replace_map map_map
    proof (rule map_cong [OF refl])
      fix kv assume "kv \<in> set d"
      obtain k v where kv: "kv = (k, v)" by (cases kv)
      show "((\<lambda>kv. (fst kv, if fst kv = f then File c else snd kv)) \<circ> overwrite es) kv =
          overwrite (es @ [(f, c)]) kv"
        using False
        by (simp add: kv overwrite_snoc fst_overwrite) (metis fst_conv fst_overwrite prod.collapse)
    qed
    finally show ?thesis by (simp add: a assignAll_snoc IH)
  qed
qed

lemma overwrite_fixed:
  "kv \<in> set (assignAll es d) \<Longrightarrow> overwrite es kv = kv"
proof (induction es arbitrary: kv rule: rev_induct)
  case Nil
  show ?case by (simp add: overwrite_Nil)
next
  case (snoc a es)
  obtain f c where a: "a = (f, c)" by (cases a)
  obtain k v where kv: "kv = (k, v)" by (cases kv)
  show ?case
  proof (cases "f = ''__proto__''")
    case True
    then show ?thesis using snoc.prems snoc.IH [of kv]
      by (simp add: a kv assignAll_snoc obj_set_proto overwrite_snoc)
  next
    case False
    from snoc.prems have "(k, v) \<in> set (obj_set f (File c) (assignAll es d))"
      by (simp add: a kv assignAll_snoc)
    from in_obj_set [OF this False]
    show ?thesis using snoc.IH [of kv] False by (auto simp: a kv overwrite_snoc)
  qed
qed

lemma assignAll_idem: "assignAll es (assignAll es d) = assignAll es d"
proof -
  have "assignAll es (assignAll es d) = map (overwrite es) (assignAll es d)"
    by (rule assignAll_overwrite) (simp add: keys_assignAll)
  also have "\<dots> = assignAll es d"
    by (rule map_idI) (rule overwrite_fixed)
  finally show ?thesis .
qed

lemma map_of_assignAll:
  "map_of (assignAll es d) k =
     (if k = ''__proto__'' then map_of d k
      else case map_of (rev es) k of Some c \<Rightarrow> Some (File c) | None \<Rightarrow> map_of d k)"
proof (induction es rule: rev_induct)
  case Nil
  show ?case by (simp add: assignAll_Nil)
next
  case (snoc a es)
  obtain f c where a: "a = (f, c)" by (cases a)
  show ?case
    unfolding a assignAll_snoc map_of_obj_set snoc.IH by auto
qed

lemma entries_falsy: "\<not> truthy s \<Longrightarrow> entries s = []"
  by (cases s) simp_all

subsection \<open>Where the merged files are\<close>

lemma content_of_names: "content_of s f = Some c \<Longrightarrow> f \<in> names s"
  unfolding content_of_def names_def
  by (drule map_of_SomeD) (simp add: rev_image_eqI)

lemma not_in_names: "f \<notin> names s \<Longrightarrow> map_of (rev (entries s)) f = None"
  by (simp add: names_def map_of_eq_None_iff)

lemma lookup_root_file:
  "lookup [''package.json''] (merged_tree cs ss ps) = Some (File package_json_contents) \<and>
   lookup [''vite.config.js''] (merged_tree cs ss ps) = Some (File vite_config_js_contents) \<and>
   lookup [''index.html''] (merged_tree cs ss ps) = Some (File index_html_contents)"
  by (simp add: merged_tree_def skeleton_files_def)

lemma lookup_src:
  "lookup (''src'' # k # ks) (merged_tree cs ss ps) =
     lookup (k # ks)
       (assignAll ps [(''components'', Directory (assignAll cs [])),
                      (''styles'', Directory (assignAll ss []))])"
  by (simp add: merged_tree_def skeleton_files_def)

lemma lookup_page:
  assumes "map_of (rev ps) f = Some c" "f \<noteq> ''__proto__''"
  shows "lookup [''src'', f] (merged_tree cs ss ps) = Some (File c)"
  using assms unfolding lookup_src by (simp add: map_of_assignAll)

lemma lookup_component:
  assumes "map_of (rev cs) f = Some c" "f \<noteq> ''__proto__''" "map_of (rev ps) ''components'' = None"
  shows "lookup [''src'', ''components'', f] (merged_tree cs ss ps) = Some (File c)"
  using assms unfolding lookup_src by (simp add: map_of_assignAll)

lemma lookup_style:
  assumes "map_of (rev ss) f = Some c" "f \<noteq> ''__proto__''" "map_of (rev ps) ''styles'' = None"
  shows "lookup [''src'', ''styles'', f] (merged_tree cs ss ps) = Some (File c)"
  using assms unfolding lookup_src by (simp add: map_of_assignAll)

lemma reserved_name_merge: "buildAppHierarchy (Some reserved_name_payload) =
   Inr (skeleton_files @
     [(''src'', Directory
        [(''components'', File ''page''),
         (''styles'', Directory [(''index.css'', File ''css'')])])])"
  by (simp add: buildAppHierarchy_merged reserved_name_payload_def section_of_def merged_tree_def
      assignAll_Cons assignAll_Nil obj_set_def obj_replace_def array_index_def is_digit_def)

lemma scenario_merge: "buildAppHierarchy (Some scenario_payload) = Inr scenario_tree"
  by (simp add: buildAppHierarchy_merged scenario_payload_def section_of_def merged_tree_def
      assignAll_Cons assignAll_Nil obj_set_def obj_replace_def array_index_def is_digit_def
      scenario_tree_def)

text \<open>
  A component called \<^verbatim>\<open>__proto__\<close> is not stored: the payload that has only this
  entry gives the bare skeleton.
\<close>

lemma proto_name_not_stored:
  "content_of (components proto_payload) ''__proto__'' = Some ''nav'' \<and>
   buildAppHierarchy (Some proto_payload) = Inr getAppSchema \<and>
   lookup [''src'', ''components'', ''__proto__''] getAppSchema = None"
proof -
  have "buildAppHierarchy (Some proto_payload) = Inr getAppSchema"
    by (simp add: buildAppHierarchy_merged proto_payload_def section_of_def merged_tree_def
        assignAll_Cons assignAll_Nil obj_set_proto getAppSchema_shape)
  then show ?thesis
    by (simp add: content_of_def proto_payload_def getAppSchema_def)
qed

lemma scenario_names:
  "names (components scenario_payload) = {''Nav.jsx''}"
  "names (styles scenario_payload) = {''index.css''}"
  "names (pages scenario_payload) = {''main.jsx''}"
  by (simp_all add: scenario_payload_def names_def)

text \<open>
  Claim C5, as amended. For every payload whose components, styles and pages filename
  sets are pairwise disjoint, in which no page is called \<^verbatim>\<open>components\<close> or
  \<^verbatim>\<open>styles\<close> and no filename is \<^verbatim>\<open>__proto__\<close>, the merged tree has every
  components entry under \<^verbatim>\<open>src/components\<close>, every styles entry under
  \<^verbatim>\<open>src/styles\<close> and every pages entry directly under \<^verbatim>\<open>src\<close>, each with its
  text, and \<^verbatim>\<open>package.json\<close>, \<^verbatim>\<open>vite.config.js\<close> and \<^verbatim>\<open>index.html\<close> keep the
  skeleton's contents.
\<close>

theorem merge_places_files:
  assumes "disjoint_names p"
    and "''components'' \<notin> names (pages p)" and "''styles'' \<notin> names (pages p)"
    and "''__proto__'' \<notin> names (components p) \<union> names (styles p) \<union> names (pages p)"
  shows "\<exists>t. buildAppHierarchy (Some p) = Inr t \<and> placed p t"
proof -
  let ?t = "merged_tree (entries (components p)) (entries (styles p)) (entries (pages p))"
  have b: "buildAppHierarchy (Some p) = Inr ?t"
    by (simp add: buildAppHierarchy_merged section_of_def)
  have c: "lookup [''src'', ''components'', f] ?t = Some (File c)"
    if "content_of (components p) f = Some c" for f c
  proof (rule lookup_component)
    show "map_of (rev (entries (components p))) f = Some c"
      using that by (simp add: content_of_def)
    show "f \<noteq> ''__proto__''"
      using content_of_names [OF that] assms(4) by auto
    show "map_of (rev (entries (pages p))) ''components'' = None"
      using assms(2) by (rule not_in_names)
  qed
  have s: "lookup [''src'', ''styles'', f] ?t = Some (File c)"
    if "content_of (styles p) f = Some c" for f c
  proof (rule lookup_style)
    show "map_of (rev (entries (styles p))) f = Some c"
      using that by (simp add: content_of_def)
    show "f \<noteq> ''__proto__''"
      using content_of_names [OF that] assms(4) by auto
    show "map_of (rev (entries (pages p))) ''styles'' = None"
      using assms(3) by (rule not_in_names)
  qed
  have g: "lookup [''src'', f] ?t = Some (File c)"
    if "content_of (pages p) f = Some c" for f c
  proof (rule lookup_page)
    show "map_of (rev (entries (pages p))) f = Some c"
      using that by (simp add: content_of_def)
    show "f \<noteq> ''__proto__''"
      using content_of_names [OF that] assms(4) by auto
  qed
  have "placed p ?t"
    unfolding placed_def using c s g lookup_root_file by blast
  with b show ?thesis by blast
qed

text \<open>The specification's scenario satisfies the hypotheses.\<close>

theorem merge_places_files_witness:
  "disjoint_names scenario_payload \<and>
   ''components'' \<notin> names (pages scenario_payload) \<and>
   ''styles'' \<notin> names (pages scenario_payload) \<and>
   ''__proto__'' \<notin> names (components scenario_payload) \<union> names (styles scenario_payload)
      \<union> names (pages scenario_payload) \<and>
   (\<exists>t. buildAppHierarchy (Some scenario_payload) = Inr t \<and> placed scenario_payload t)"
proof -
  have 1: "disjoint_names scenario_payload"
    by (simp add: disjoint_names_def scenario_names)
  have 2: "''components'' \<notin> names (pages scenario_payload)"
    by (simp add: scenario_names)
  have 3: "''styles'' \<notin> names (pages scenario_payload)"
    by (simp add: scenario_names)
  have 4: "''__proto__'' \<notin> names (components scenario_payload) \<union> names (styles scenario_payload)
      \<union> names (pages scenario_payload)"
    by (simp add: scenario_names)
  from 1 2 3 4 merge_places_files [OF 1 2 3 4] show ?thesis by blast
qed

text \<open>
  Claim C5 as stated fails: the pages loop assigns into the directory object that holds
  the \<^verbatim>\<open>components\<close> and \<^verbatim>\<open>styles\<close> subtrees, so a page called
  \<^verbatim>\<open>components\<close> replaces that subtree by a file, and the components entry
  \<^verbatim>\<open>Nav.jsx\<close> is nowhere in the tree although the three filename sets are disjoint.
\<close>

theorem reserved_page_name_counterexample:
  "disjoint_names reserved_name_payload \<and>
   buildAppHierarchy (Some reserved_name_payload) =
     Inr (skeleton_files @
       [(''src'', Directory
          [(''components'', File ''page''),
           (''styles'', Directory [(''index.css'', File ''css'')])])]) \<and>
   content_of (components reserved_name_payload) ''Nav.jsx'' = Some ''nav'' \<and>
   lookup [''src'', ''components'', ''Nav.jsx'']
     (skeleton_files @
       [(''src'', Directory
          [(''components'', File ''page''),
           (''styles'', Directory [(''index.css'', File ''css'')])])]) = None \<and>
   \<not> placed reserved_name_payload
     (skeleton_files @
       [(''src'', Directory
          [(''components'', File ''page''),
           (''styles'', Directory [(''index.css'', File ''css'')])])])"
proof -
  let ?t = "skeleton_files @
       [(''src'', Directory
          [(''components'', File ''page''),
           (''styles'', Directory [(''index.css'', File ''css'')])])]"
  have 1: "disjoint_names reserved_name_payload"
    by (simp add: disjoint_names_def names_def reserved_name_payload_def)
  have 2: "buildAppHierarchy (Some reserved_name_payload) = Inr ?t"
    by (rule reserved_name_merge)
  have 3: "content_of (components reserved_name_payload) ''Nav.jsx'' = Some ''nav''"
    by (simp add: content_of_def reserved_name_payload_def)
  have 4: "lookup [''src'', ''components'', ''Nav.jsx''] ?t = None"
    by (simp add: skeleton_files_def)
  have 5: "\<not> placed reserved_name_payload ?t"
  proof
    assume "placed reserved_name_payload ?t"
    then have "lookup [''src'', ''components'', ''Nav.jsx''] ?t = Some (File ''nav'')"
      unfolding placed_def using 3 by blast
    with 4 show False by simp
  qed
  from 1 2 3 4 5 show ?thesis by blast
qed

subsection \<open>Merging again\<close>

lemma dir_ok_obj_set:
  assumes "dir_ok d" "distinct_names v"
  shows "dir_ok (obj_set k v d)"
proof (cases "k = ''__proto__''")
  case True
  then show ?thesis using assms(1) by (simp add: obj_set_proto)
next
  case False
  have "distinct (map fst (obj_set k v d))"
    using assms(1) by (simp add: dir_ok_def distinct_obj_set)
  moreover have "distinct_names (snd kv)" if "kv \<in> set (obj_set k v d)" for kv
  proof -
    obtain k' v' where kv: "kv = (k', v')" by (cases kv)
    from that in_obj_set [of k' v' k v d] False
    have "(k' = k \<and> v' = v) \<or> ((k', v') \<in> set d \<and> k' \<noteq> k)" by (simp add: kv)
    then show ?thesis using assms by (auto simp: kv dir_ok_def)
  qed
  ultimately show ?thesis by (simp add: dir_ok_def)
qed

lemma dir_ok_assignAll: "dir_ok d \<Longrightarrow> dir_ok (assignAll es d)"
proof (induction es rule: rev_induct)
  case Nil
  then show ?case by (simp add: assignAll_Nil)
next
  case (snoc a es)
  obtain f c where a: "a = (f, c)" by (cases a)
  show ?case
    unfolding a assignAll_snoc using snoc by (intro dir_ok_obj_set) simp_all
qed

lemma dir_ok_Nil: "dir_ok []"
  by (simp add: dir_ok_def)


lemma distinct_names_merged_tree: "distinct_names (Directory (merged_tree cs ss ps))"
proof -
  have c: "dir_ok (assignAll cs [])" and s: "dir_ok (assignAll ss [])"
    by (rule dir_ok_assignAll [OF dir_ok_Nil])+
  have "dir_ok [(''components'', Directory (assignAll cs [])),
                (''styles'', Directory (assignAll ss []))]"
    using c s by (simp add: dir_ok_def)
  then have "dir_ok (assignAll ps [(''components'', Directory (assignAll cs [])),
                (''styles'', Directory (assignAll ss []))])"
    by (rule dir_ok_assignAll)
  then show ?thesis
    by (simp add: merged_tree_def skeleton_files_def dir_ok_def)
qed

lemma obj_replace_twice: "obj_replace k v (obj_replace k u xs) = obj_replace k v xs"
  by (simp add: obj_replace_map comp_def)

lemma mergeEntries_path:
  "mergeEntries (p # ps) es t =
     (if es = [] then Inr t
      else case map_of t p of
             Some (Directory sub) \<Rightarrow>
               (case mergeEntries ps es sub of
                  Inl e \<Rightarrow> Inl e
                | Inr sub' \<Rightarrow> Inr (obj_replace p (Directory sub') t))
           | _ \<Rightarrow> Inl TypeError)"
proof (induction es arbitrary: t)
  case Nil
  show ?case by simp
next
  case (Cons a es)
  obtain f c where a: "a = (f, c)" by (cases a)
  show ?case
  proof (cases "map_of t p")
    case None
    then show ?thesis by (simp add: a)
  next
    case (Some n)
    show ?thesis
    proof (cases n)
      case (File x)
      then show ?thesis using Some by (simp add: a)
    next
      case (Directory sub)
      have pk: "p \<in> fst ` set t"
        using Some by (rule map_of_in_keys)
      show ?thesis
      proof (cases "assign_at ps f (File c) sub")
        case (Inl e)
        then show ?thesis using Some Directory by (simp add: a)
      next
        case (Inr sub1)
        have m1: "map_of (obj_replace p (Directory sub1) t) p = Some (Directory sub1)"
          using pk by (simp add: map_of_obj_replace)
        show ?thesis
          using Some Directory Inr m1 Cons.IH [of "obj_replace p (Directory sub1) t"]
          by (simp add: a obj_replace_twice split: sum.splits)
      qed
    qed
  qed
qed

lemma mergeEntries_idem:
  "mergeEntries pth es t = Inr t' \<Longrightarrow> mergeEntries pth es t' = Inr t'"
proof (induction pth arbitrary: t t')
  case Nil
  then show ?case by (auto simp: mergeEntries_Nil_path assignAll_idem)
next
  case (Cons p ps)
  show ?case
  proof (cases "es = []")
    case True
    then show ?thesis by simp
  next
    case False
    from Cons.prems False obtain sub sub' where
      m: "map_of t p = Some (Directory sub)" and
      r: "mergeEntries ps es sub = Inr sub'" and
      t': "t' = obj_replace p (Directory sub') t"
      unfolding mergeEntries_path [of p ps es t]
      by (auto split: option.splits node.splits sum.splits)
    have pk: "p \<in> fst ` set t"
      using m by (rule map_of_in_keys)
    have m': "map_of t' p = Some (Directory sub')"
      using pk by (simp add: t' map_of_obj_replace)
    have "mergeEntries ps es sub' = Inr sub'"
      using r by (rule Cons.IH)
    then show ?thesis
      unfolding mergeEntries_path [of p ps es t'] using False m'
      by (simp add: t' obj_replace_twice)
  qed
qed

lemma mergeSection_idem:
  "mergeSection pth s t = Inr t' \<Longrightarrow> mergeSection pth s t' = Inr t'"
  unfolding mergeSection_entries by (rule mergeEntries_idem)



















subsection \<open>Uploads do not accumulate\<close>

lemma upload_success:
  assumes "upload req b = (UploadSuccess t, b')"
  shows "\<exists>appFiles. generated req = Some appFiles \<and> buildAppHierarchy appFiles = Inr t \<and>
           b' = b\<lparr>appStructure := t\<rparr>"
  using assms
  by (auto simp: upload_def split: option.splits if_splits fetch_result.splits sum.splits)

lemma lookup_components_origin:
  assumes "lookup [''src'', ''components'', f] (merged_tree cs ss ps) = Some n"
  shows "f \<in> fst ` set cs"
proof -
  from assms have "map_of (assignAll cs []) f = Some n"
    unfolding lookup_src
    by (auto simp: map_of_assignAll split: option.splits node.splits if_splits)
  then have "f \<in> fst ` set (assignAll cs [])"
    by (rule map_of_in_keys)
  then show ?thesis by (simp add: keys_assignAll)
qed

lemma lookup_styles_origin:
  assumes "lookup [''src'', ''styles'', f] (merged_tree cs ss ps) = Some n"
  shows "f \<in> fst ` set ss"
proof -
  from assms have "map_of (assignAll ss []) f = Some n"
    unfolding lookup_src
    by (auto simp: map_of_assignAll split: option.splits node.splits if_splits)
  then have "f \<in> fst ` set (assignAll ss [])"
    by (rule map_of_in_keys)
  then show ?thesis by (simp add: keys_assignAll)
qed

lemma lookup_pages_origin:
  assumes "lookup [''src'', f] (merged_tree cs ss ps) = Some n"
  shows "f \<in> {''components'', ''styles''} \<union> fst ` set ps"
proof -
  let ?base = "[(''components'', Directory (assignAll cs [])),
               (''styles'', Directory (assignAll ss []))]"
  from assms have "map_of (assignAll ps ?base) f = Some n"
    unfolding lookup_src by simp
  then have "f \<in> fst ` set (assignAll ps ?base)"
    by (rule map_of_in_keys)
  then have "f \<in> fst ` set ?base \<union> {f \<in> fst ` set ps. f \<noteq> ''__proto__''}"
    by (simp only: keys_assignAll)
  moreover have "fst ` set ?base = {''components'', ''styles''}"
    by simp
  ultimately show ?thesis by blast
qed

lemma lookup_root_origin:
  assumes "lookup [f] (merged_tree cs ss ps) = Some n"
  shows "f \<in> {''package.json'', ''vite.config.js'', ''index.html'', ''src''}"
  using assms by (auto simp: merged_tree_def skeleton_files_def split: if_splits)

text \<open>
  Claim C10. Two uploads whose generated payloads are the same return the same project
  tree and leave the same \<^verbatim>\<open>appStructure\<close>, whatever the backend states they start
  from. The tree holds nothing of an earlier project: every name in it is a name of the
  skeleton or a filename of this payload.
\<close>

theorem upload_rebuilds_from_skeleton:
  assumes "generated req1 = Some appFiles" and "generated req2 = Some appFiles"
    and "upload req1 b1 = (UploadSuccess t1, b1')"
    and "upload req2 b2 = (UploadSuccess t2, b2')"
  shows "t1 = t2 \<and> appStructure b1' = t1 \<and> appStructure b2' = t1 \<and>
    (\<forall>f n. lookup [f] t1 = Some n \<longrightarrow>
       f \<in> {''package.json'', ''vite.config.js'', ''index.html'', ''src''}) \<and>
    (\<forall>f n. lookup [''src'', f] t1 = Some n \<longrightarrow>
       f \<in> {''components'', ''styles''} \<union> names (section_of appFiles pages)) \<and>
    (\<forall>f n. lookup [''src'', ''components'', f] t1 = Some n \<longrightarrow>
       f \<in> names (section_of appFiles components)) \<and>
    (\<forall>f n. lookup [''src'', ''styles'', f] t1 = Some n \<longrightarrow>
       f \<in> names (section_of appFiles styles))"
proof -
  let ?m = "merged_tree (entries (section_of appFiles components))
      (entries (section_of appFiles styles)) (entries (section_of appFiles pages))"
  from upload_success [OF assms(3)] assms(1)
  have 1: "t1 = ?m" and s1: "b1' = b1\<lparr>appStructure := t1\<rparr>"
    by (auto simp: buildAppHierarchy_merged)
  from upload_success [OF assms(4)] assms(2)
  have 2: "t2 = ?m" and s2: "b2' = b2\<lparr>appStructure := t2\<rparr>"
    by (auto simp: buildAppHierarchy_merged)
  have a: "t1 = t2 \<and> appStructure b1' = t1 \<and> appStructure b2' = t1"
    using 1 2 s1 s2 by simp
  have r: "\<forall>f n. lookup [f] t1 = Some n \<longrightarrow>
       f \<in> {''package.json'', ''vite.config.js'', ''index.html'', ''src''}"
    unfolding 1 using lookup_root_origin by blast
  have p: "\<forall>f n. lookup [''src'', f] t1 = Some n \<longrightarrow>
       f \<in> {''components'', ''styles''} \<union> names (section_of appFiles pages)"
    unfolding 1 names_def using lookup_pages_origin by blast
  have c: "\<forall>f n. lookup [''src'', ''components'', f] t1 = Some n \<longrightarrow>
       f \<in> names (section_of appFiles components)"
    unfolding 1 names_def using lookup_components_origin by blast
  have s: "\<forall>f n. lookup [''src'', ''styles'', f] t1 = Some n \<longrightarrow>
       f \<in> names (section_of appFiles styles)"
    unfolding 1 names_def using lookup_styles_origin by blast
  from a r p c s show ?thesis by blast
qed

lemma earlier_upload_result:
  "upload earlier_upload (initial_backend None) =
     (UploadSuccess
        (skeleton_files @
          [(''src'', Directory
             [(''components'', File ''page''),
              (''styles'', Directory [(''index.css'', File ''css'')])])]),
      (initial_backend None)\<lparr>appStructure :=
        skeleton_files @
          [(''src'', Directory
             [(''components'', File ''page''),
              (''styles'', Directory [(''index.css'', File ''css'')])])]\<rparr>)"
  by (simp add: upload_def earlier_upload_def reserved_name_merge)

lemma scenario_upload_any:
  "upload scenario_upload b = (UploadSuccess scenario_tree, b\<lparr>appStructure := scenario_tree\<rparr>)"
  by (simp add: upload_def scenario_upload_def scenario_merge)

text \<open>
  The scenario uploaded to a fresh backend and to one that holds the project of an
  earlier upload: the earlier \<^verbatim>\<open>index.css\<close> and any other old file are gone.
\<close>

theorem upload_rebuilds_from_skeleton_witness:
  "generated scenario_upload = Some (Some scenario_payload) \<and>
   upload scenario_upload (initial_backend None) =
     (UploadSuccess scenario_tree, (initial_backend None)\<lparr>appStructure := scenario_tree\<rparr>) \<and>
   upload scenario_upload (snd (upload earlier_upload (initial_backend None))) =
     (UploadSuccess scenario_tree,
      (snd (upload earlier_upload (initial_backend None)))\<lparr>appStructure := scenario_tree\<rparr>) \<and>
   lookup [''src'', ''styles'', ''index.css'']
     (appStructure (snd (upload earlier_upload (initial_backend None)))) = Some (File ''css'') \<and>
   appStructure ((snd (upload earlier_upload (initial_backend None)))\<lparr>appStructure := scenario_tree\<rparr>)
     = scenario_tree \<and>
   names (section_of (Some scenario_payload) components) = {''Nav.jsx''} \<and>
   lookup [''src'', ''components'', ''Old.jsx''] scenario_tree = None"
proof -
  let ?b = "snd (upload earlier_upload (initial_backend None))"
  have g: "generated scenario_upload = Some (Some scenario_payload)"
    by (simp add: scenario_upload_def)
  have u1: "upload scenario_upload (initial_backend None) =
     (UploadSuccess scenario_tree, (initial_backend None)\<lparr>appStructure := scenario_tree\<rparr>)"
    by (rule scenario_upload_any)
  have u2: "upload scenario_upload ?b = (UploadSuccess scenario_tree, ?b\<lparr>appStructure := scenario_tree\<rparr>)"
    by (rule scenario_upload_any)
  have e: "lookup [''src'', ''styles'', ''index.css''] (appStructure ?b) = Some (File ''css'')"
    by (simp add: earlier_upload_result skeleton_files_def)
  have n: "names (section_of (Some scenario_payload) components) = {''Nav.jsx''}"
    by (simp add: section_of_def scenario_names)
  note th = upload_rebuilds_from_skeleton [OF g g u1 u2]
  from th have a: "appStructure (?b\<lparr>appStructure := scenario_tree\<rparr>) = scenario_tree"
    by blast
  from th have "\<forall>f n. lookup [''src'', ''components'', f] scenario_tree = Some n \<longrightarrow>
       f \<in> names (section_of (Some scenario_payload) components)"
    by blast
  then have i: "lookup [''src'', ''components'', ''Old.jsx''] scenario_tree = Some m \<Longrightarrow>
       ''Old.jsx'' \<in> {''Nav.jsx''}" for m
    unfolding n by blast
  have o: "lookup [''src'', ''components'', ''Old.jsx''] scenario_tree = None"
  proof (cases "lookup [''src'', ''components'', ''Old.jsx''] scenario_tree")
    case None
    then show ?thesis .
  next
    case (Some m)
    from i [OF Some] show ?thesis by simp
  qed
  from g u1 u2 e a n o show ?thesis by blast
qed

subsection \<open>Missing and malformed sections\<close>

lemma names_empty_entries: "names s = {} \<Longrightarrow> entries s = []"
  by (simp add: names_def)

lemma names_falsy: "\<not> truthy s \<Longrightarrow> names s = {}"
  by (simp add: names_def entries_falsy)

lemma lookup_subtree:
  assumes "map_of (rev ps) k = None" "k = ''components'' \<or> k = ''styles''"
  shows "lookup [''src'', k] (merged_tree cs ss ps) =
     Some (Directory (assignAll (if k = ''components'' then cs else ss) []))"
  using assms unfolding lookup_src by (auto simp: map_of_assignAll)

text \<open>
  Claim C9, as amended. For every generation payload, also one in which sections are
  missing or malformed, the merge returns a tree and never throws; a payload that is
  \<^verbatim>\<open>undefined\<close> gives the bare skeleton. A section that is missing, or is falsy, or
  is a number or a boolean, has no entries and is skipped: no file appears under its
  subtree, which stays empty. Every other section, a mapping or not, is enumerated by
  \<^verbatim>\<open>Object.entries\<close> and merged: each entry not called \<^verbatim>\<open>__proto__\<close> is in the tree
  with its text, a page directly under \<^verbatim>\<open>src\<close>, a component or style under its
  subtree unless a page is called like that subtree; the tree has no other file under
  \<^verbatim>\<open>src\<close>, and the three root files keep the skeleton's contents.
\<close>

theorem merge_tolerates_sections:
  assumes "cs = section_of appFiles components" and "ss = section_of appFiles styles"
    and "pg = section_of appFiles pages"
  shows
   "buildAppHierarchy None = Inr getAppSchema \<and>
    (\<forall>s. \<not> truthy s \<longrightarrow> names s = {}) \<and> (\<forall>b. names (Primitive b) = {}) \<and>
    (\<exists>t. buildAppHierarchy appFiles = Inr t \<and>
      lookup [''package.json''] t = Some (File package_json_contents) \<and>
      lookup [''vite.config.js''] t = Some (File vite_config_js_contents) \<and>
      lookup [''index.html''] t = Some (File index_html_contents) \<and>
      (\<forall>f c. f \<noteq> ''__proto__'' \<and> content_of pg f = Some c \<longrightarrow>
         lookup [''src'', f] t = Some (File c)) \<and>
      (''components'' \<notin> names pg \<longrightarrow>
         (\<forall>f c. f \<noteq> ''__proto__'' \<and> content_of cs f = Some c \<longrightarrow>
            lookup [''src'', ''components'', f] t = Some (File c)) \<and>
         (names cs = {} \<longrightarrow> lookup [''src'', ''components''] t = Some (Directory []))) \<and>
      (''styles'' \<notin> names pg \<longrightarrow>
         (\<forall>f c. f \<noteq> ''__proto__'' \<and> content_of ss f = Some c \<longrightarrow>
            lookup [''src'', ''styles'', f] t = Some (File c)) \<and>
         (names ss = {} \<longrightarrow> lookup [''src'', ''styles''] t = Some (Directory []))) \<and>
      (\<forall>f n. lookup [''src'', ''components'', f] t = Some n \<longrightarrow> f \<in> names cs) \<and>
      (\<forall>f n. lookup [''src'', ''styles'', f] t = Some n \<longrightarrow> f \<in> names ss) \<and>
      (\<forall>f n. lookup [''src'', f] t = Some n \<longrightarrow>
         f \<in> {''components'', ''styles''} \<union> names pg))"
proof -
  let ?t = "merged_tree (entries cs) (entries ss) (entries pg)"
  have b: "buildAppHierarchy appFiles = Inr ?t"
    by (simp add: buildAppHierarchy_merged assms)
  have n: "buildAppHierarchy None = Inr getAppSchema"
    by (simp add: buildAppHierarchy_merged section_of_def merged_tree_def assignAll_Nil
        getAppSchema_shape)
  have f: "\<forall>s. \<not> truthy s \<longrightarrow> names s = {}"
    by (simp add: names_falsy)
  have p: "\<forall>b. names (Primitive b) = {}"
    by (simp add: names_def)
  have r1: "lookup [''package.json''] ?t = Some (File package_json_contents)"
    and r2: "lookup [''vite.config.js''] ?t = Some (File vite_config_js_contents)"
    and r3: "lookup [''index.html''] ?t = Some (File index_html_contents)"
    using lookup_root_file [of "entries cs" "entries ss" "entries pg"] by blast+
  have pages: "\<forall>f c. f \<noteq> ''__proto__'' \<and> content_of pg f = Some c \<longrightarrow>
         lookup [''src'', f] ?t = Some (File c)"
  proof (intro allI impI, elim conjE)
    fix f c assume "f \<noteq> ''__proto__''" "content_of pg f = Some c"
    then show "lookup [''src'', f] ?t = Some (File c)"
      by (intro lookup_page) (simp_all add: content_of_def)
  qed
  have comps: "''components'' \<notin> names pg \<longrightarrow>
         (\<forall>f c. f \<noteq> ''__proto__'' \<and> content_of cs f = Some c \<longrightarrow>
            lookup [''src'', ''components'', f] ?t = Some (File c)) \<and>
         (names cs = {} \<longrightarrow> lookup [''src'', ''components''] ?t = Some (Directory []))"
  proof (intro impI conjI allI)
    fix f c assume "''components'' \<notin> names pg" "f \<noteq> ''__proto__'' \<and> content_of cs f = Some c"
    then show "lookup [''src'', ''components'', f] ?t = Some (File c)"
      by (intro lookup_component) (simp_all add: content_of_def not_in_names)
  next
    assume "''components'' \<notin> names pg" "names cs = {}"
    then show "lookup [''src'', ''components''] ?t = Some (Directory [])"
      using lookup_subtree [of "entries pg" "''components''" "entries cs" "entries ss"]
      by (simp add: not_in_names names_empty_entries assignAll_Nil)
  qed
  have stys: "''styles'' \<notin> names pg \<longrightarrow>
         (\<forall>f c. f \<noteq> ''__proto__'' \<and> content_of ss f = Some c \<longrightarrow>
            lookup [''src'', ''styles'', f] ?t = Some (File c)) \<and>
         (names ss = {} \<longrightarrow> lookup [''src'', ''styles''] ?t = Some (Directory []))"
  proof (intro impI conjI allI)
    fix f c assume "''styles'' \<notin> names pg" "f \<noteq> ''__proto__'' \<and> content_of ss f = Some c"
    then show "lookup [''src'', ''styles'', f] ?t = Some (File c)"
      by (intro lookup_style) (simp_all add: content_of_def not_in_names)
  next
    assume "''styles'' \<notin> names pg" "names ss = {}"
    then show "lookup [''src'', ''styles''] ?t = Some (Directory [])"
      using lookup_subtree [of "entries pg" "''styles''" "entries cs" "entries ss"]
      by (simp add: not_in_names names_empty_entries assignAll_Nil)
  qed
  have oc: "\<forall>f n. lookup [''src'', ''components'', f] ?t = Some n \<longrightarrow> f \<in> names cs"
    unfolding names_def using lookup_components_origin by blast
  have os: "\<forall>f n. lookup [''src'', ''styles'', f] ?t = Some n \<longrightarrow> f \<in> names ss"
    unfolding names_def using lookup_styles_origin by blast
  have op: "\<forall>f n. lookup [''src'', f] ?t = Some n \<longrightarrow>
         f \<in> {''components'', ''styles''} \<union> names pg"
    unfolding names_def using lookup_pages_origin by blast
  from b r1 r2 r3 pages comps stys oc os op n f p show ?thesis by blast
qed

text \<open>Components and pages present, styles missing.\<close>

theorem merge_tolerates_sections_witness:
  "names (section_of (Some partial_payload) styles) = {} \<and>
   ''components'' \<notin> names (section_of (Some partial_payload) pages) \<and>
   ''styles'' \<notin> names (section_of (Some partial_payload) pages) \<and>
   content_of (section_of (Some partial_payload) components) ''Nav.jsx'' = Some ''nav'' \<and>
   content_of (section_of (Some partial_payload) pages) ''main.jsx'' = Some ''main'' \<and>
   (\<exists>t. buildAppHierarchy (Some partial_payload) = Inr t \<and>
      lookup [''src'', ''components'', ''Nav.jsx''] t = Some (File ''nav'') \<and>
      lookup [''src'', ''styles''] t = Some (Directory []) \<and>
      lookup [''src'', ''main.jsx''] t = Some (File ''main''))"
proof -
  let ?cs = "section_of (Some partial_payload) components"
  let ?ss = "section_of (Some partial_payload) styles"
  let ?pg = "section_of (Some partial_payload) pages"
  have 1: "names ?ss = {}" by (simp add: section_of_def partial_payload_def names_def)
  have 2: "''components'' \<notin> names ?pg" by (simp add: section_of_def partial_payload_def names_def)
  have 3: "''styles'' \<notin> names ?pg" by (simp add: section_of_def partial_payload_def names_def)
  have 4: "content_of ?cs ''Nav.jsx'' = Some ''nav''"
    by (simp add: section_of_def partial_payload_def content_of_def)
  have 5: "content_of ?pg ''main.jsx'' = Some ''main''"
    by (simp add: section_of_def partial_payload_def content_of_def)
  note th = merge_tolerates_sections [OF refl refl refl, of "Some partial_payload",
      THEN conjunct2, THEN conjunct2, THEN conjunct2]
  from th obtain t where all:
     "buildAppHierarchy (Some partial_payload) = Inr t \<and>
      lookup [''package.json''] t = Some (File package_json_contents) \<and>
      lookup [''vite.config.js''] t = Some (File vite_config_js_contents) \<and>
      lookup [''index.html''] t = Some (File index_html_contents) \<and>
      (\<forall>f c. f \<noteq> ''__proto__'' \<and> content_of ?pg f = Some c \<longrightarrow>
         lookup [''src'', f] t = Some (File c)) \<and>
      (''components'' \<notin> names ?pg \<longrightarrow>
         (\<forall>f c. f \<noteq> ''__proto__'' \<and> content_of ?cs f = Some c \<longrightarrow>
            lookup [''src'', ''components'', f] t = Some (File c)) \<and>
         (names ?cs = {} \<longrightarrow> lookup [''src'', ''components''] t = Some (Directory []))) \<and>
      (''styles'' \<notin> names ?pg \<longrightarrow>
         (\<forall>f c. f \<noteq> ''__proto__'' \<and> content_of ?ss f = Some c \<longrightarrow>
            lookup [''src'', ''styles'', f] t = Some (File c)) \<and>
         (names ?ss = {} \<longrightarrow> lookup [''src'', ''styles''] t = Some (Directory []))) \<and>
      (\<forall>f n. lookup [''src'', ''components'', f] t = Some n \<longrightarrow> f \<in> names ?cs) \<and>
      (\<forall>f n. lookup [''src'', ''styles'', f] t = Some n \<longrightarrow> f \<in> names ?ss) \<and>
      (\<forall>f n. lookup [''src'', f] t = Some n \<longrightarrow>
         f \<in> {''components'', ''styles''} \<union> names ?pg)" ..
  from all have t: "buildAppHierarchy (Some partial_payload) = Inr t" by (rule conjunct1)
  note pg = all [THEN conjunct2, THEN conjunct2, THEN conjunct2, THEN conjunct2, THEN conjunct1]
  note cs = all [THEN conjunct2, THEN conjunct2, THEN conjunct2, THEN conjunct2, THEN conjunct2,
      THEN conjunct1, THEN mp, OF 2, THEN conjunct1]
  note c = all [THEN conjunct2, THEN conjunct2, THEN conjunct2, THEN conjunct2, THEN conjunct2,
      THEN conjunct2, THEN conjunct1, THEN mp, OF 3, THEN conjunct2, THEN mp, OF 1]
  have a: "lookup [''src'', ''main.jsx''] t = Some (File ''main'')"
    by (rule pg [rule_format]) (simp add: 5)
  have b: "lookup [''src'', ''components'', ''Nav.jsx''] t = Some (File ''nav'')"
    by (rule cs [rule_format]) (simp add: 4)
  from t a b c have "\<exists>t. buildAppHierarchy (Some partial_payload) = Inr t \<and>
      lookup [''src'', ''components'', ''Nav.jsx''] t = Some (File ''nav'') \<and>
      lookup [''src'', ''styles''] t = Some (Directory []) \<and>
      lookup [''src'', ''main.jsx''] t = Some (File ''main'')"
    by (intro exI [of _ t] conjI)
  with 1 2 3 4 5 show ?thesis by (intro conjI)
qed

lemma malformed_sections_merge:
  "buildAppHierarchy (Some malformed_payload) =
     Inr (skeleton_files @
       [(''src'', Directory
          [(''components'', Directory [(''0'', File ''a''), (''1'', File ''b'')]),
           (''styles'', Directory [])])])"
  by (simp add: buildAppHierarchy_merged malformed_payload_def section_of_def merged_tree_def
      decimal.simps upt_rec
      assignAll_Cons assignAll_Nil obj_set_def array_index_def is_digit_def parse_decimal_def)

text \<open>
  Claim C9 as stated fails for a malformed section that is truthy and has entries: a
  components section that is the string \<^verbatim>\<open>"ab"\<close> is not skipped, its two characters
  become the files \<^verbatim>\<open>src/components/0\<close> and \<^verbatim>\<open>src/components/1\<close>.
\<close>

theorem string_section_counterexample:
  "components malformed_payload = Text ''ab'' \<and>
   buildAppHierarchy (Some malformed_payload) =
     Inr (skeleton_files @
       [(''src'', Directory
          [(''components'', Directory [(''0'', File ''a''), (''1'', File ''b'')]),
           (''styles'', Directory [])])]) \<and>
   lookup [''src'', ''components'', ''0'']
     (skeleton_files @
       [(''src'', Directory
          [(''components'', Directory [(''0'', File ''a''), (''1'', File ''b'')]),
           (''styles'', Directory [])])]) = Some (File ''a'') \<and>
   lookup [''src'', ''components'', ''1'']
     (skeleton_files @
       [(''src'', Directory
          [(''components'', Directory [(''0'', File ''a''), (''1'', File ''b'')]),
           (''styles'', Directory [])])]) = Some (File ''b'')"
proof -
  have 1: "components malformed_payload = Text ''ab''"
    by (simp add: malformed_payload_def)
  have 3: "lookup [''src'', ''components'', ''0'']
     (skeleton_files @
       [(''src'', Directory
          [(''components'', Directory [(''0'', File ''a''), (''1'', File ''b'')]),
           (''styles'', Directory [])])]) = Some (File ''a'')"
    by (simp add: skeleton_files_def)
  have 4: "lookup [''src'', ''components'', ''1'']
     (skeleton_files @
       [(''src'', Directory
          [(''components'', Directory [(''0'', File ''a''), (''1'', File ''b'')]),
           (''styles'', Directory [])])]) = Some (File ''b'')"
    by (simp add: skeleton_files_def)
  from 1 malformed_sections_merge 3 4 show ?thesis by blast
qed

subsection \<open>Authorization sessions\<close>

lemma hex_a: "to_hex bytes_a = ''a54dca182530bb1d6d132cded6237b2ed91e3f721fcb1971174494d6493c9d5c''"
  by (simp add: to_hex_def bytes_a_def hex_digit_def)

lemma hex_b: "to_hex bytes_b = ''3460be31201e69fedaa0eee8b9997f5c7c2999fdafe593253cd654af4dfad714''"
  by (simp add: to_hex_def bytes_b_def hex_digit_def)

lemma to_hex_nonempty: "bs \<noteq> [] \<Longrightarrow> to_hex bs \<noteq> []"
  by (cases bs) (simp_all add: to_hex_def)

lemma sessions_after_auth:
  assumes "GITHUB_CLIENT_ID b = Some cid" "cid \<noteq> []"
  shows "githubAuthSessions (snd (github_auth bytes created swept redirect b)) =
         cleanupAuthSessions swept
           ((githubAuthSessions b)(to_hex bytes \<mapsto> \<lparr>timestamp = created, token = None\<rparr>))"
  using assms by (simp add: github_auth_def Let_def)

lemma cleanup_fresh:
  "swept - created \<le> 600000 \<Longrightarrow>
   cleanupAuthSessions swept (ss(st \<mapsto> \<lparr>timestamp = created, token = None\<rparr>)) st =
     Some \<lparr>timestamp = created, token = None\<rparr>"
  by (simp add: cleanupAuthSessions_def)

lemma cleanup_Some:
  "cleanupAuthSessions now ss st = Some s \<longleftrightarrow> ss st = Some s \<and> \<not> timestamp s < now - 600000"
  by (auto simp: cleanupAuthSessions_def split: option.splits)

lemma status_known:
  assumes "st \<noteq> []" "githubAuthSessions b st = Some s"
  shows "github_auth_status (Some st) t b =
     (if t - timestamp s > 600000
      then (Expired, b\<lparr>githubAuthSessions := (githubAuthSessions b)(st := None)\<rparr>)
      else case token s of
             Some tok \<Rightarrow> if tok \<noteq> [] then (Authorized tok, b) else (Pending, b)
           | None \<Rightarrow> (Pending, b))"
  using assms
  by (simp add: github_auth_status_def Expired_def Authorized_def Pending_def split: option.splits)

lemma status_unknown:
  assumes "st \<noteq> []" "githubAuthSessions b st = None"
  shows "github_auth_status (Some st) t b = (NotFound, b)"
  using assms by (simp add: github_auth_status_def NotFound_def)

lemma status_Authorized:
  assumes "fst (github_auth_status state t b) = Authorized tok"
  shows "\<exists>st s. state = Some st \<and> githubAuthSessions b st = Some s \<and> token s = Some tok"
  using assms
  by (auto simp: github_auth_status_def Authorized_def split: option.splits if_splits)

lemma callback_known:
  assumes "c \<noteq> []" "st \<noteq> []" "githubAuthSessions b st = Some s"
  shows "github_callback (Some c) (Some st) ex b =
     (if exchange_failed ex then (ConnectionFailedPage, b)
      else case ex of TokenData (Some tok) \<Rightarrow>
        (ConnectedPage,
         b\<lparr>githubAuthSessions := (githubAuthSessions b)(st \<mapsto> s\<lparr>token := Some tok\<rparr>)\<rparr>))"
  using assms
  by (simp add: github_callback_def exchange_failed_def split: exchange.splits option.splits)


lemma serve_all_snoc: "serve_all (es @ [e]) b = serve e (serve_all es b)"
  by (induction es arbitrary: b) simp_all

lemma serve_all_append: "serve_all (es @ es') b = serve_all es' (serve_all es b)"
  by (induction es arbitrary: b) simp_all

lemma auth_sessions:
  "githubAuthSessions (snd (github_auth bytes created swept redirect b)) st = Some s \<Longrightarrow>
   githubAuthSessions b st = Some s \<or> token s = None"
  by (auto simp: github_auth_def Let_def cleanup_Some split: option.splits if_splits)

lemma status_sessions:
  "githubAuthSessions (snd (github_auth_status state t b)) st = Some s \<Longrightarrow>
   githubAuthSessions b st = Some s"
  by (auto simp: github_auth_status_def split: option.splits if_splits)

lemma callback_sessions:
  assumes "githubAuthSessions (snd (github_callback code state ex b)) st = Some s"
  shows "githubAuthSessions b st = Some s \<or>
    (\<exists>c tok. code = Some c \<and> state = Some st \<and> ex = TokenData (Some tok) \<and>
       token s = Some tok \<and> fst (github_callback code state ex b) = ConnectedPage)"
  using assms
  by (auto simp: github_callback_def split: option.splits if_splits exchange.splits)

lemma token_provenance:
  assumes "githubAuthSessions (serve_all es b) st = Some s" "token s = Some tok"
  shows "(\<exists>s0. githubAuthSessions b st = Some s0 \<and> token s0 = Some tok) \<or>
    (\<exists>es1 c es2. es = es1 @ Callback (Some c) (Some st) (TokenData (Some tok)) # es2 \<and>
       fst (github_callback (Some c) (Some st) (TokenData (Some tok)) (serve_all es1 b))
         = ConnectedPage)"
  using assms
proof (induction es arbitrary: s rule: rev_induct)
  case Nil
  then show ?case by simp
next
  case (snoc e es)
  let ?b = "serve_all es b"
  from snoc.prems(1) have after: "githubAuthSessions (serve e ?b) st = Some s"
    by (simp add: serve_all_snoc)
  have ext: ?case if "githubAuthSessions ?b st = Some s"
  proof -
    from snoc.IH [OF that snoc.prems(2)] show ?thesis
    proof
      assume "\<exists>s0. githubAuthSessions b st = Some s0 \<and> token s0 = Some tok"
      then show ?thesis by blast
    next
      assume "\<exists>es1 c es2. es = es1 @ Callback (Some c) (Some st) (TokenData (Some tok)) # es2 \<and>
         fst (github_callback (Some c) (Some st) (TokenData (Some tok)) (serve_all es1 b))
           = ConnectedPage"
      then obtain es1 c es2 where
        "es = es1 @ Callback (Some c) (Some st) (TokenData (Some tok)) # es2"
        "fst (github_callback (Some c) (Some st) (TokenData (Some tok)) (serve_all es1 b))
           = ConnectedPage"
        by blast
      then have "es @ [e] = es1 @ Callback (Some c) (Some st) (TokenData (Some tok)) # (es2 @ [e]) \<and>
         fst (github_callback (Some c) (Some st) (TokenData (Some tok)) (serve_all es1 b))
           = ConnectedPage"
        by simp
      then show ?thesis by blast
    qed
  qed
  show ?case
  proof (cases e)
    case (Auth bytes created swept redirect)
    from after auth_sessions [of bytes created swept redirect ?b st s] snoc.prems(2)
    have "githubAuthSessions ?b st = Some s" by (simp add: Auth)
    then show ?thesis by (rule ext)
  next
    case (Status state t)
    from after status_sessions [of state t ?b st s]
    have "githubAuthSessions ?b st = Some s" by (simp add: Status)
    then show ?thesis by (rule ext)
  next
    case (Callback code state ex)
    from after callback_sessions [of code state ex ?b st s]
    have "githubAuthSessions ?b st = Some s \<or>
      (\<exists>c tok'. code = Some c \<and> state = Some st \<and> ex = TokenData (Some tok') \<and>
         token s = Some tok' \<and> fst (github_callback code state ex ?b) = ConnectedPage)"
      by (simp add: Callback)
    then show ?thesis
    proof
      assume "githubAuthSessions ?b st = Some s"
      then show ?thesis by (rule ext)
    next
      assume "\<exists>c tok'. code = Some c \<and> state = Some st \<and> ex = TokenData (Some tok') \<and>
         token s = Some tok' \<and> fst (github_callback code state ex ?b) = ConnectedPage"
      then obtain c where c: "code = Some c" "state = Some st" "ex = TokenData (Some tok)"
        "fst (github_callback code state ex ?b) = ConnectedPage"
        using snoc.prems(2) by auto
      have "es @ [e] = es @ Callback (Some c) (Some st) (TokenData (Some tok)) # [] \<and>
         fst (github_callback (Some c) (Some st) (TokenData (Some tok)) (serve_all es b))
           = ConnectedPage"
        using c by (simp add: Callback)
      then show ?thesis by blast
    qed
  qed
qed

lemma connected_sessions:
  "githubAuthSessions connected_backend (to_hex bytes_a) = Some \<lparr>timestamp = 0, token = None\<rparr>"
  unfolding connected_backend_def
  by (subst sessions_after_auth [of _ "''Iv1.0123456789abcdef''"])
     (simp_all add: initial_backend_def cleanup_fresh)

lemma client_id_auth:
  "GITHUB_CLIENT_ID (snd (github_auth bytes created swept redirect b)) = GITHUB_CLIENT_ID b"
  by (simp add: github_auth_def Let_def split: option.splits)

lemma client_id_callback:
  "GITHUB_CLIENT_ID (snd (github_callback code state ex b)) = GITHUB_CLIENT_ID b"
  by (simp add: github_callback_def split: option.splits exchange.splits)

lemma client_id_status:
  "GITHUB_CLIENT_ID (snd (github_auth_status state t b)) = GITHUB_CLIENT_ID b"
  by (simp add: github_auth_status_def split: option.splits)

lemma client_id_serve: "GITHUB_CLIENT_ID (serve e b) = GITHUB_CLIENT_ID b"
  by (cases e) (simp_all add: client_id_auth client_id_callback client_id_status)

lemma client_id_serve_all: "GITHUB_CLIENT_ID (serve_all es b) = GITHUB_CLIENT_ID b"
  by (induction es arbitrary: b) (simp_all add: client_id_serve)

lemma granted_Some:
  "granted st e = Some a \<Longrightarrow>
   \<exists>c. e = Callback (Some c) (Some st) (TokenData (Some a)) \<and> c \<noteq> [] \<and> st \<noteq> [] \<and> a \<noteq> []"
  by (induction st e rule: granted.induct) (simp_all split: if_splits)

lemma token_after_snoc:
  "token_after st (es @ [e]) tok =
     (case granted st e of Some a \<Rightarrow> Some a | None \<Rightarrow> token_after st es tok)"
  by (induction es arbitrary: tok) (simp_all split: option.splits)

lemma token_after_None:
  "token_after st es None = None \<longleftrightarrow> (\<forall>e \<in> set es. granted st e = None)"
proof (induction es rule: rev_induct)
  case Nil
  show ?case by simp
next
  case (snoc e es)
  show ?case
    unfolding token_after_snoc using snoc by (cases "granted st e") auto
qed

lemma token_after_Some:
  "token_after st es None = Some tok \<Longrightarrow>
   tok \<noteq> [] \<and>
   (\<exists>es1 c es2. es = es1 @ Callback (Some c) (Some st) (TokenData (Some tok)) # es2 \<and>
      c \<noteq> [] \<and> (\<forall>e \<in> set es2. granted st e = None))"
proof (induction es rule: rev_induct)
  case Nil
  then show ?case by simp
next
  case (snoc e es)
  show ?case
  proof (cases "granted st e")
    case None
    with snoc.prems have "token_after st es None = Some tok"
      by (simp add: token_after_snoc)
    from snoc.IH [OF this] obtain es1 c es2 where
      ne: "tok \<noteq> []" and es: "es = es1 @ Callback (Some c) (Some st) (TokenData (Some tok)) # es2"
      and c: "c \<noteq> []" and rest: "\<forall>e \<in> set es2. granted st e = None"
      by blast
    have "es @ [e] = es1 @ Callback (Some c) (Some st) (TokenData (Some tok)) # (es2 @ [e]) \<and>
      c \<noteq> [] \<and> (\<forall>e' \<in> set (es2 @ [e]). granted st e' = None)"
      using es c rest None by simp
    with ne show ?thesis by blast
  next
    case (Some a)
    with snoc.prems have a: "a = tok" by (simp add: token_after_snoc)
    from granted_Some [OF Some] obtain c where
      e: "e = Callback (Some c) (Some st) (TokenData (Some tok))" and c: "c \<noteq> []"
      and ne: "tok \<noteq> []"
      unfolding a by blast
    have "es @ [e] = es @ Callback (Some c) (Some st) (TokenData (Some tok)) # [] \<and>
      c \<noteq> [] \<and> (\<forall>e' \<in> set []. granted st e' = None)"
      using e c by simp
    with ne show ?thesis by blast
  qed
qed

lemma auth_keeps:
  assumes "githubAuthSessions b st = Some \<lparr>timestamp = now, token = tok\<rparr>"
    and "to_hex bytes \<noteq> st" and "\<not> now < swept - 600000"
  shows "githubAuthSessions (snd (github_auth bytes created swept redirect b)) st =
     Some \<lparr>timestamp = now, token = tok\<rparr>"
  using assms
  by (simp add: github_auth_def Let_def cleanupAuthSessions_def split: option.splits)

lemma status_keeps:
  assumes "githubAuthSessions b st = Some \<lparr>timestamp = now, token = tok\<rparr>"
    and "\<not> (state = Some st \<and> t - now > 600000)"
  shows "githubAuthSessions (snd (github_auth_status state t b)) st =
     Some \<lparr>timestamp = now, token = tok\<rparr>"
  using assms
  by (auto simp: github_auth_status_def split: option.splits)

lemma callback_keeps:
  assumes "githubAuthSessions b st = Some \<lparr>timestamp = now, token = tok\<rparr>"
  shows "githubAuthSessions (snd (github_callback code state ex b)) st =
     Some \<lparr>timestamp = now,
       token = (case granted st (Callback code state ex) of Some a \<Rightarrow> Some a | None \<Rightarrow> tok)\<rparr>"
proof (cases "granted st (Callback code state ex)")
  case None
  then have "githubAuthSessions (snd (github_callback code state ex b)) st = githubAuthSessions b st"
    using assms
    by (auto simp: github_callback_def split: option.splits exchange.splits if_splits)
  then show ?thesis using assms None by simp
next
  case (Some a)
  from granted_Some [OF this] obtain c where
    "code = Some c" "state = Some st" "ex = TokenData (Some a)" "c \<noteq> []" "st \<noteq> []"
    "a \<noteq> []"
    by blast
  then show ?thesis using assms Some
    by (simp add: github_callback_def)
qed

lemma serve_undisturbed:
  assumes "githubAuthSessions b st = Some \<lparr>timestamp = now, token = tok\<rparr>"
    and "\<not> disturbs st now e"
  shows "githubAuthSessions (serve e b) st =
     Some \<lparr>timestamp = now,
       token = (case granted st e of Some a \<Rightarrow> Some a | None \<Rightarrow> tok)\<rparr>"
proof (cases e)
  case (Auth bytes created swept redirect)
  then show ?thesis using assms by (simp add: auth_keeps)
next
  case (Callback code state ex)
  then show ?thesis using assms(1) by (simp only: serve.simps callback_keeps)
next
  case (Status state t)
  then show ?thesis using assms by (simp add: status_keeps)
qed

lemma session_persists:
  assumes "githubAuthSessions b st = Some \<lparr>timestamp = now, token = tok\<rparr>"
    and "\<forall>e \<in> set es. \<not> disturbs st now e"
  shows "githubAuthSessions (serve_all es b) st =
     Some \<lparr>timestamp = now, token = token_after st es tok\<rparr>"
  using assms
proof (induction es arbitrary: b tok)
  case Nil
  then show ?case by simp
next
  case (Cons e es)
  from Cons.prems have "\<not> disturbs st now e" by simp
  from serve_undisturbed [OF Cons.prems(1) this]
  have "githubAuthSessions (serve_all es (serve e b)) st =
     Some \<lparr>timestamp = now,
       token = token_after st es (case granted st e of Some a \<Rightarrow> Some a | None \<Rightarrow> tok)\<rparr>"
    by (rule Cons.IH) (use Cons.prems in simp)
  then show ?case by simp
qed

lemma auth_sweeps:
  assumes "GITHUB_CLIENT_ID b = Some cid" "cid \<noteq> []"
    and "githubAuthSessions b st = Some s" and "to_hex bytes \<noteq> st"
    and "timestamp s < swept - 600000"
  shows "githubAuthSessions (snd (github_auth bytes created swept redirect b)) st = None"
  unfolding sessions_after_auth [OF assms(1,2)]
  using assms(3,4,5) by (simp add: cleanupAuthSessions_def)

text \<open>
  Claim C3, as amended. Take a session created by \<^verbatim>\<open>POST /api/github/auth\<close> with
  timestamp \<open>now\<close>, the sweep of that request reading the clock at most ten minutes
  later, and let any requests \<open>es\<close> be served after it among which no authorization
  draws the same token or sweeps at a time more than ten minutes after \<open>now\<close>, and no
  status query asks for the token at an age beyond ten minutes. Then the session is
  still stored, with its timestamp and with the credential of the last callback for the
  token that succeeded, if any. A status query on the token at an age of at most ten
  minutes reports Pending when no callback for the token has succeeded and Authorized
  with that credential when one has; a further successful callback makes the next such
  query report Authorized with its credential. Whatever requests are served, a query
  reports Authorized with a credential only if a callback for the token succeeded before
  with that credential. A query at an age beyond ten minutes reports Expired and removes
  the session, so that the next query reports NotFound. An authorization with another
  token that sweeps at a time more than ten minutes after \<open>now\<close> removes the session,
  and a query then reports NotFound.
\<close>

theorem session_lifecycle:
  assumes "GITHUB_CLIENT_ID b = Some cid" and "cid \<noteq> []" and "length bytes = 32"
    and "swept - now \<le> 600000"
    and "st = to_hex bytes" and "b0 = snd (github_auth bytes now swept redirect b)"
    and "\<forall>e \<in> set es. \<not> disturbs st now e" and "b1 = serve_all es b0"
  shows
   "githubAuthSessions b0 st = Some \<lparr>timestamp = now, token = None\<rparr> \<and>
    githubAuthSessions b1 st = Some \<lparr>timestamp = now, token = token_after st es None\<rparr> \<and>
    (\<forall>t. t - now \<le> 600000 \<longrightarrow>
       github_auth_status (Some st) t b1 =
         (case token_after st es None of None \<Rightarrow> Pending | Some tok \<Rightarrow> Authorized tok, b1)) \<and>
    ((token_after st es None = None) = (\<forall>e \<in> set es. granted st e = None)) \<and>
    (\<forall>tok. token_after st es None = Some tok \<longrightarrow>
       tok \<noteq> [] \<and>
       (\<exists>es1 c es2. es = es1 @ Callback (Some c) (Some st) (TokenData (Some tok)) # es2 \<and>
          c \<noteq> [] \<and> (\<forall>e \<in> set es2. granted st e = None))) \<and>
    (\<forall>c tok t. c \<noteq> [] \<and> tok \<noteq> [] \<and> t - now \<le> 600000 \<longrightarrow>
       fst (github_callback (Some c) (Some st) (TokenData (Some tok)) b1) = ConnectedPage \<and>
       fst (github_auth_status (Some st) t
         (snd (github_callback (Some c) (Some st) (TokenData (Some tok)) b1))) = Authorized tok) \<and>
    (\<forall>es' t tok. fst (github_auth_status (Some st) t (serve_all es' b0)) = Authorized tok \<longrightarrow>
       (\<exists>es1 c es2. es' = es1 @ Callback (Some c) (Some st) (TokenData (Some tok)) # es2 \<and>
          fst (github_callback (Some c) (Some st) (TokenData (Some tok)) (serve_all es1 b0))
            = ConnectedPage)) \<and>
    (\<forall>t t'. t - now > 600000 \<longrightarrow>
       github_auth_status (Some st) t b1 =
         (Expired, b1\<lparr>githubAuthSessions := (githubAuthSessions b1)(st := None)\<rparr>) \<and>
       fst (github_auth_status (Some st) t' (snd (github_auth_status (Some st) t b1))) =
         NotFound) \<and>
    (\<forall>bytes' created' swept' redirect' t. to_hex bytes' \<noteq> st \<and> now < swept' - 600000 \<longrightarrow>
       githubAuthSessions (snd (github_auth bytes' created' swept' redirect' b1)) st = None \<and>
       fst (github_auth_status (Some st) t
         (snd (github_auth bytes' created' swept' redirect' b1))) = NotFound)"
proof -
  have ne: "st \<noteq> []"
    using assms(3,5) by (intro to_hex_nonempty [of bytes, folded assms(5)]) auto
  have s0: "githubAuthSessions b0 st = Some \<lparr>timestamp = now, token = None\<rparr>"
    unfolding assms(5,6) sessions_after_auth [OF assms(1,2)]
    using assms(4) by (rule cleanup_fresh)
  have s1: "githubAuthSessions b1 st = Some \<lparr>timestamp = now, token = token_after st es None\<rparr>"
    unfolding assms(8) using s0 assms(7) by (rule session_persists)
  have cid1: "GITHUB_CLIENT_ID b1 = Some cid"
    unfolding assms(8) client_id_serve_all assms(6) client_id_auth by (rule assms(1))
  have tn: "(token_after st es None = None) = (\<forall>e \<in> set es. granted st e = None)"
    by (rule token_after_None)
  have ts: "\<forall>tok. token_after st es None = Some tok \<longrightarrow>
       tok \<noteq> [] \<and>
       (\<exists>es1 c es2. es = es1 @ Callback (Some c) (Some st) (TokenData (Some tok)) # es2 \<and>
          c \<noteq> [] \<and> (\<forall>e \<in> set es2. granted st e = None))"
    by (intro allI impI) (rule token_after_Some)
  have p: "\<forall>t. t - now \<le> 600000 \<longrightarrow>
       github_auth_status (Some st) t b1 =
         (case token_after st es None of None \<Rightarrow> Pending | Some tok \<Rightarrow> Authorized tok, b1)"
  proof (intro allI impI)
    fix t :: int
    assume t: "t - now \<le> 600000"
    show "github_auth_status (Some st) t b1 =
         (case token_after st es None of None \<Rightarrow> Pending | Some tok \<Rightarrow> Authorized tok, b1)"
    proof (cases "token_after st es None")
      case None
      then show ?thesis using t by (simp add: status_known [OF ne s1])
    next
      case (Some tok)
      with token_after_Some [OF Some] have "tok \<noteq> []" by simp
      then show ?thesis using t Some by (simp add: status_known [OF ne s1])
    qed
  qed
  have c: "\<forall>c tok t. c \<noteq> [] \<and> tok \<noteq> [] \<and> t - now \<le> 600000 \<longrightarrow>
       fst (github_callback (Some c) (Some st) (TokenData (Some tok)) b1) = ConnectedPage \<and>
       fst (github_auth_status (Some st) t
         (snd (github_callback (Some c) (Some st) (TokenData (Some tok)) b1))) = Authorized tok"
  proof (intro allI impI)
    fix c tok :: string and t :: int
    assume h: "c \<noteq> [] \<and> tok \<noteq> [] \<and> t - now \<le> 600000"
    let ?b2 = "snd (github_callback (Some c) (Some st) (TokenData (Some tok)) b1)"
    have k: "github_callback (Some c) (Some st) (TokenData (Some tok)) b1 =
        (ConnectedPage, b1\<lparr>githubAuthSessions := (githubAuthSessions b1)
           (st \<mapsto> \<lparr>timestamp = now, token = Some tok\<rparr>)\<rparr>)"
      using h ne s1 by (simp add: callback_known exchange_failed_def)
    have "githubAuthSessions ?b2 st = Some \<lparr>timestamp = now, token = Some tok\<rparr>"
      unfolding k by simp
    from status_known [OF ne this, of t] h
    have "fst (github_auth_status (Some st) t ?b2) = Authorized tok" by simp
    then show "fst (github_callback (Some c) (Some st) (TokenData (Some tok)) b1) = ConnectedPage \<and>
       fst (github_auth_status (Some st) t ?b2) = Authorized tok"
      using k by simp
  qed
  have a: "\<forall>es' t tok. fst (github_auth_status (Some st) t (serve_all es' b0)) = Authorized tok \<longrightarrow>
       (\<exists>es1 c es2. es' = es1 @ Callback (Some c) (Some st) (TokenData (Some tok)) # es2 \<and>
          fst (github_callback (Some c) (Some st) (TokenData (Some tok)) (serve_all es1 b0))
            = ConnectedPage)"
  proof (intro allI impI)
    fix es' t tok
    assume that: "fst (github_auth_status (Some st) t (serve_all es' b0)) = Authorized tok"
    from status_Authorized [OF that] obtain s where
      "githubAuthSessions (serve_all es' b0) st = Some s" "token s = Some tok" by auto
    from token_provenance [OF this] s0
    show "\<exists>es1 c es2. es' = es1 @ Callback (Some c) (Some st) (TokenData (Some tok)) # es2 \<and>
          fst (github_callback (Some c) (Some st) (TokenData (Some tok)) (serve_all es1 b0))
            = ConnectedPage"
      by auto
  qed
  have e: "\<forall>t t'. t - now > 600000 \<longrightarrow>
       github_auth_status (Some st) t b1 =
         (Expired, b1\<lparr>githubAuthSessions := (githubAuthSessions b1)(st := None)\<rparr>) \<and>
       fst (github_auth_status (Some st) t' (snd (github_auth_status (Some st) t b1))) =
         NotFound"
  proof (intro allI impI)
    fix t t' :: int
    assume t: "t - now > 600000"
    let ?b2 = "b1\<lparr>githubAuthSessions := (githubAuthSessions b1)(st := None)\<rparr>"
    have x: "github_auth_status (Some st) t b1 = (Expired, ?b2)"
      using t by (simp add: status_known [OF ne s1])
    have "githubAuthSessions ?b2 st = None" by simp
    from status_unknown [OF ne this, of t']
    have "fst (github_auth_status (Some st) t' ?b2) = NotFound" by simp
    then show "github_auth_status (Some st) t b1 = (Expired, ?b2) \<and>
       fst (github_auth_status (Some st) t' (snd (github_auth_status (Some st) t b1))) =
         NotFound"
      unfolding x by simp
  qed
  have w: "\<forall>bytes' created' swept' redirect' t. to_hex bytes' \<noteq> st \<and> now < swept' - 600000 \<longrightarrow>
       githubAuthSessions (snd (github_auth bytes' created' swept' redirect' b1)) st = None \<and>
       fst (github_auth_status (Some st) t
         (snd (github_auth bytes' created' swept' redirect' b1))) = NotFound"
  proof (intro allI impI)
    fix bytes' created' swept' redirect' t
    assume h: "to_hex bytes' \<noteq> st \<and> now < swept' - 600000"
    let ?b2 = "snd (github_auth bytes' created' swept' redirect' b1)"
    have g: "githubAuthSessions ?b2 st = None"
      by (rule auth_sweeps [OF cid1 assms(2) s1]) (use h in simp_all)
    from status_unknown [OF ne this, of t]
    have "fst (github_auth_status (Some st) t ?b2) = NotFound" by simp
    with g show "githubAuthSessions ?b2 st = None \<and>
       fst (github_auth_status (Some st) t ?b2) = NotFound" by simp
  qed
  show ?thesis
    by (intro conjI, rule s0, rule s1, rule p, rule tn, rule ts, rule c, rule a, rule e, rule w)
qed

text \<open>
  A session created at time 0. With another authorization, a query and a callback for
  the other session served, it is Pending at 9:59; with its own callback served too it
  is Authorized at 9:59, Expired and removed at 10:01, NotFound after that; and NotFound
  after an authorization at minute 11.
\<close>

theorem session_lifecycle_witness:
  "GITHUB_CLIENT_ID (initial_backend (Some ''Iv1.0123456789abcdef'')) = Some ''Iv1.0123456789abcdef'' \<and>
   length bytes_a = 32 \<and>
   list_all (\<lambda>e. \<not> disturbs (to_hex bytes_a) 0 e) authorizing_requests \<and>
   githubAuthSessions connected_backend (to_hex bytes_a) = Some \<lparr>timestamp = 0, token = None\<rparr> \<and>
   github_auth_status (Some (to_hex bytes_a)) 599000 (serve_all waiting_requests connected_backend) =
     (Pending, serve_all waiting_requests connected_backend) \<and>
   fst (github_auth_status (Some (to_hex bytes_a)) 599000
     (serve_all authorizing_requests connected_backend)) = Authorized ''gho_credential'' \<and>
   fst (github_auth_status (Some (to_hex bytes_a)) 601000
     (serve_all authorizing_requests connected_backend)) = Expired \<and>
   githubAuthSessions (snd (github_auth_status (Some (to_hex bytes_a)) 601000
     (serve_all authorizing_requests connected_backend))) (to_hex bytes_a) = None \<and>
   fst (github_auth_status (Some (to_hex bytes_a)) 602000
     (snd (github_auth_status (Some (to_hex bytes_a)) 601000
        (serve_all authorizing_requests connected_backend)))) = NotFound \<and>
   fst (github_auth_status (Some (to_hex bytes_a)) 720000
     (snd (github_auth bytes_b 660000 660000 ''https%3A%2F%2Fhost%2Fapi%2Fgithub%2Fcallback''
        (serve_all waiting_requests connected_backend)))) = NotFound"
proof -
  let ?st = "to_hex bytes_a"
  let ?bw = "serve_all waiting_requests connected_backend"
  let ?ba = "serve_all authorizing_requests connected_backend"
  have 1: "GITHUB_CLIENT_ID (initial_backend (Some ''Iv1.0123456789abcdef'')) = Some ''Iv1.0123456789abcdef''"
    by (simp add: initial_backend_def)
  have 2: "''Iv1.0123456789abcdef'' \<noteq> []" by simp
  have 3: "length bytes_a = 32" by (simp add: bytes_a_def)
  have 4: "(0::int) - 0 \<le> 600000" by simp
  have dw: "\<forall>e \<in> set waiting_requests. \<not> disturbs ?st 0 e"
    by (simp add: waiting_requests_def hex_a hex_b)
  have da: "\<forall>e \<in> set authorizing_requests. \<not> disturbs ?st 0 e"
    by (simp add: authorizing_requests_def waiting_requests_def hex_a hex_b)
  have la: "list_all (\<lambda>e. \<not> disturbs ?st 0 e) authorizing_requests"
    using da by (simp add: list_all_iff)
  have tw: "token_after ?st waiting_requests None = None"
    by (simp add: waiting_requests_def hex_a hex_b)
  have ta: "token_after ?st authorizing_requests None = Some ''gho_credential''"
    by (simp add: authorizing_requests_def waiting_requests_def hex_a hex_b)
  note thw = session_lifecycle [OF 1 2 3 4 refl connected_backend_def dw refl]
  note tha = session_lifecycle [OF 1 2 3 4 refl connected_backend_def da refl]
  have s: "githubAuthSessions connected_backend ?st = Some \<lparr>timestamp = 0, token = None\<rparr>"
    by (rule thw [THEN conjunct1])
  have p: "github_auth_status (Some ?st) 599000 ?bw = (Pending, ?bw)"
    using thw [THEN conjunct2, THEN conjunct2, THEN conjunct1, rule_format, of 599000]
    by (simp add: tw)
  have a: "fst (github_auth_status (Some ?st) 599000 ?ba) = Authorized ''gho_credential''"
    using tha [THEN conjunct2, THEN conjunct2, THEN conjunct1, rule_format, of 599000]
    by (simp add: ta)
  have late: "(601000::int) - 0 > 600000" by simp
  note e = tha [THEN conjunct2, THEN conjunct2, THEN conjunct2, THEN conjunct2, THEN conjunct2,
      THEN conjunct2, THEN conjunct2, THEN conjunct1, rule_format, OF late, of 602000]
  have e1: "fst (github_auth_status (Some ?st) 601000 ?ba) = Expired"
    using e [THEN conjunct1] by simp
  have e2: "githubAuthSessions (snd (github_auth_status (Some ?st) 601000 ?ba)) ?st = None"
    using e [THEN conjunct1] by simp
  have e3: "fst (github_auth_status (Some ?st) 602000
      (snd (github_auth_status (Some ?st) 601000 ?ba))) = NotFound"
    by (rule e [THEN conjunct2])
  have sweep: "to_hex bytes_b \<noteq> ?st \<and> (0::int) < 660000 - 600000"
    by (simp add: hex_a hex_b)
  note w = thw [THEN conjunct2, THEN conjunct2, THEN conjunct2, THEN conjunct2, THEN conjunct2,
      THEN conjunct2, THEN conjunct2, THEN conjunct2, rule_format, OF sweep, THEN conjunct2,
      of 720000 660000 "''https%3A%2F%2Fhost%2Fapi%2Fgithub%2Fcallback''"]
  show ?thesis
    by (intro conjI, rule 1, rule 3, rule la, rule s, rule p, rule a, rule e1, rule e2, rule e3,
        rule w)
qed

text \<open>
  Claim C3 as stated fails: \<^verbatim>\<open>POST /api/github/auth\<close> sweeps every session older than
  ten minutes. A session created at time 0 is swept by a second authorization at minute
  11, and the status query at minute 12 reports NotFound, not Expired.
\<close>

theorem swept_session_counterexample:
  "length bytes_a = 32 \<and> length bytes_b = 32 \<and>
   githubAuthSessions connected_backend (to_hex bytes_a) = Some \<lparr>timestamp = 0, token = None\<rparr> \<and>
   fst (github_auth_status (Some (to_hex bytes_a)) 720000
     (snd (github_auth bytes_b 660000 660000 ''https%3A%2F%2Fhost%2Fapi%2Fgithub%2Fcallback''
        connected_backend))) = NotFound \<and>
   NotFound \<noteq> Expired"
proof -
  let ?b1 = "snd (github_auth bytes_b 660000 660000 ''https%3A%2F%2Fhost%2Fapi%2Fgithub%2Fcallback''
        connected_backend)"
  have cid: "GITHUB_CLIENT_ID connected_backend = Some ''Iv1.0123456789abcdef''"
    by (simp add: connected_backend_def github_auth_def initial_backend_def Let_def)
  have "githubAuthSessions ?b1 (to_hex bytes_a) = None"
    unfolding sessions_after_auth [OF cid, simplified]
    by (simp add: cleanupAuthSessions_def connected_sessions [unfolded hex_a] hex_a hex_b)
  then have "github_auth_status (Some (to_hex bytes_a)) 720000 ?b1 = (NotFound, ?b1)"
    by (intro status_unknown) (simp_all add: hex_a)
  then have r: "fst (github_auth_status (Some (to_hex bytes_a)) 720000 ?b1) = NotFound"
    by simp
  have d: "NotFound \<noteq> Expired"
    by (simp add: NotFound_def Expired_def)
  have l: "length bytes_a = 32" "length bytes_b = 32"
    by (simp_all add: bytes_a_def bytes_b_def)
  from l connected_sessions r d show ?thesis by blast
qed

text \<open>
  Claim C7. When the token exchange of a callback for a known session obtains no access
  token, the answer is the failure page (status 500) and the backend is unchanged: the
  session is still stored as it was, a session without credential is still reported
  Pending, and a later callback with the same state token whose exchange succeeds
  attaches the credential. The callback is refused only once the session is gone from
  the store.
\<close>

theorem failed_exchange_keeps_session:
  assumes "githubAuthSessions b st = Some s" and "c \<noteq> []" and "st \<noteq> []"
    and "exchange_failed ex"
  shows
   "github_callback (Some c) (Some st) ex b = (ConnectionFailedPage, b) \<and>
    callback_status ConnectionFailedPage = 500 \<and>
    githubAuthSessions (snd (github_callback (Some c) (Some st) ex b)) st = Some s \<and>
    (token s = None \<longrightarrow>
       (\<forall>t. t - timestamp s \<le> 600000 \<longrightarrow>
          fst (github_auth_status (Some st) t (snd (github_callback (Some c) (Some st) ex b)))
            = Pending)) \<and>
    (\<forall>c' tok. c' \<noteq> [] \<and> tok \<noteq> [] \<longrightarrow>
       github_callback (Some c') (Some st) (TokenData (Some tok))
           (snd (github_callback (Some c) (Some st) ex b)) =
         (ConnectedPage,
          b\<lparr>githubAuthSessions := (githubAuthSessions b)(st \<mapsto> s\<lparr>token := Some tok\<rparr>)\<rparr>)) \<and>
    (\<forall>c' ex' b'. c' \<noteq> [] \<and> githubAuthSessions b' st = None \<longrightarrow>
       github_callback (Some c') (Some st) ex' b' =
         (CallbackStatus 400 ''Invalid or expired authentication session'', b'))"
proof -
  have f: "github_callback (Some c) (Some st) ex b = (ConnectionFailedPage, b)"
    using assms by (simp add: callback_known)
  have st: "callback_status ConnectionFailedPage = 500"
    by (simp add: callback_status_def)
  have k: "githubAuthSessions (snd (github_callback (Some c) (Some st) ex b)) st = Some s"
    using f assms(1) by simp
  have p: "fst (github_auth_status (Some st) t (snd (github_callback (Some c) (Some st) ex b)))
      = Pending" if "token s = None" "t - timestamp s \<le> 600000" for t
    using that f by (simp add: status_known [OF assms(3,1)])
  have r: "github_callback (Some c') (Some st) (TokenData (Some tok))
           (snd (github_callback (Some c) (Some st) ex b)) =
         (ConnectedPage,
          b\<lparr>githubAuthSessions := (githubAuthSessions b)(st \<mapsto> s\<lparr>token := Some tok\<rparr>)\<rparr>)"
    if "c' \<noteq> []" "tok \<noteq> []" for c' tok
    using that f by (simp add: callback_known [OF _ assms(3,1)] exchange_failed_def)
  have g: "github_callback (Some c') (Some st) ex' b' =
         (CallbackStatus 400 ''Invalid or expired authentication session'', b')"
    if "c' \<noteq> []" "githubAuthSessions b' st = None" for c' ex' b'
    using that assms(3) by (simp add: github_callback_def)
  from f st k p r g show ?thesis by blast
qed

text \<open>A failed exchange followed by a retry that succeeds.\<close>

theorem failed_exchange_keeps_session_witness:
  "githubAuthSessions connected_backend (to_hex bytes_a) = Some \<lparr>timestamp = 0, token = None\<rparr> \<and>
   exchange_failed (TokenData None) \<and>
   github_callback (Some ''code-1'') (Some (to_hex bytes_a)) (TokenData None) connected_backend =
     (ConnectionFailedPage, connected_backend) \<and>
   fst (github_auth_status (Some (to_hex bytes_a)) 30000
     (snd (github_callback (Some ''code-1'') (Some (to_hex bytes_a)) (TokenData None)
        connected_backend))) = Pending \<and>
   fst (github_callback (Some ''code-2'') (Some (to_hex bytes_a)) (TokenData (Some ''gho_credential''))
     (snd (github_callback (Some ''code-1'') (Some (to_hex bytes_a)) (TokenData None)
        connected_backend))) = ConnectedPage"
proof -
  have 2: "''code-1'' \<noteq> []" by simp
  have 3: "to_hex bytes_a \<noteq> []" by (simp add: hex_a)
  have 4: "exchange_failed (TokenData None)" by (simp add: exchange_failed_def)
  note th = failed_exchange_keeps_session [OF connected_sessions 2 3 4]
  from th have f: "github_callback (Some ''code-1'') (Some (to_hex bytes_a)) (TokenData None)
      connected_backend = (ConnectionFailedPage, connected_backend)" by blast
  from th have "token \<lparr>timestamp = 0, token = None\<rparr> = None \<longrightarrow>
       (\<forall>t. t - timestamp \<lparr>timestamp = 0, token = None\<rparr> \<le> 600000 \<longrightarrow>
          fst (github_auth_status (Some (to_hex bytes_a)) t
            (snd (github_callback (Some ''code-1'') (Some (to_hex bytes_a)) (TokenData None)
               connected_backend))) = Pending)" by blast
  then have p: "fst (github_auth_status (Some (to_hex bytes_a)) 30000
     (snd (github_callback (Some ''code-1'') (Some (to_hex bytes_a)) (TokenData None)
        connected_backend))) = Pending" by simp
  from th have "\<forall>c' tok. c' \<noteq> [] \<and> tok \<noteq> [] \<longrightarrow>
       github_callback (Some c') (Some (to_hex bytes_a)) (TokenData (Some tok))
           (snd (github_callback (Some ''code-1'') (Some (to_hex bytes_a)) (TokenData None)
              connected_backend)) =
         (ConnectedPage,
          connected_backend\<lparr>githubAuthSessions := (githubAuthSessions connected_backend)
            (to_hex bytes_a \<mapsto> \<lparr>timestamp = 0, token = None\<rparr>\<lparr>token := Some tok\<rparr>)\<rparr>)"
    by blast
  from this [rule_format, of "''code-2''" "''gho_credential''"]
  have r: "fst (github_callback (Some ''code-2'') (Some (to_hex bytes_a))
     (TokenData (Some ''gho_credential''))
     (snd (github_callback (Some ''code-1'') (Some (to_hex bytes_a)) (TokenData None)
        connected_backend))) = ConnectedPage" by simp
  from connected_sessions 4 f p r show ?thesis by blast
qed

text \<open>
  Claim C8, as amended. For every non-empty state token that is not in the session
  store, the status route answers NotFound (status 404, \<^verbatim>\<open>authenticated: false\<close>) and
  leaves the backend as it is. Whatever the store and the time, an empty state and a
  state that is missing or not a string are rejected before the lookup with status 400,
  the error \<^verbatim>\<open>Invalid state parameter\<close> and no \<^verbatim>\<open>authenticated\<close> field, and the
  backend is left as it is.
\<close>

theorem unknown_state_not_found:
  assumes "st \<noteq> []" and "githubAuthSessions b st = None"
  shows "github_auth_status (Some st) t b = (NotFound, b) \<and>
         status NotFound = 404 \<and> authenticated NotFound = Some False \<and>
         github_auth_status (Some []) t' b' =
           (\<lparr>status = 400, authenticated = None, token_field = None,
             error_field = Some ''Invalid state parameter''\<rparr>, b') \<and>
         github_auth_status None t' b' =
           (\<lparr>status = 400, authenticated = None, token_field = None,
             error_field = Some ''Invalid state parameter''\<rparr>, b')"
  using assms by (simp add: status_unknown NotFound_def github_auth_status_def)

text \<open>A token nobody was given.\<close>

theorem unknown_state_not_found_witness:
  "''no-such-state'' \<noteq> [] \<and>
   githubAuthSessions connected_backend ''no-such-state'' = None \<and>
   github_auth_status (Some ''no-such-state'') 1000 connected_backend = (NotFound, connected_backend) \<and>
   github_auth_status (Some []) 2000 connected_backend =
     (\<lparr>status = 400, authenticated = None, token_field = None,
       error_field = Some ''Invalid state parameter''\<rparr>, connected_backend)"
proof -
  have 1: "''no-such-state'' \<noteq> []" by simp
  have cid: "GITHUB_CLIENT_ID (initial_backend (Some ''Iv1.0123456789abcdef'')) = Some ''Iv1.0123456789abcdef''"
    by (simp add: initial_backend_def)
  have 2: "githubAuthSessions connected_backend ''no-such-state'' = None"
    unfolding connected_backend_def sessions_after_auth [OF cid, simplified]
    by (simp add: cleanupAuthSessions_def initial_backend_def hex_a)
  from unknown_state_not_found [OF 1 2, of 1000 2000 connected_backend] 1 2 show ?thesis by blast
qed

text \<open>
  Claim C8 as stated fails for the empty token: the route first rejects a state that is
  empty or not a string with status 400 and no \<^verbatim>\<open>authenticated\<close> field.
\<close>

theorem empty_state_counterexample:
  "githubAuthSessions connected_backend [] = None \<and>
   fst (github_auth_status (Some []) 1000 connected_backend) =
     \<lparr>status = 400, authenticated = None, token_field = None,
      error_field = Some ''Invalid state parameter''\<rparr> \<and>
   fst (github_auth_status (Some []) 1000 connected_backend) \<noteq> NotFound"
proof -
  have cid: "GITHUB_CLIENT_ID (initial_backend (Some ''Iv1.0123456789abcdef'')) = Some ''Iv1.0123456789abcdef''"
    by (simp add: initial_backend_def)
  have 1: "githubAuthSessions connected_backend [] = None"
    unfolding connected_backend_def sessions_after_auth [OF cid, simplified]
    by (simp add: cleanupAuthSessions_def initial_backend_def hex_a)
  have 2: "fst (github_auth_status (Some []) 1000 connected_backend) =
     \<lparr>status = 400, authenticated = None, token_field = None,
      error_field = Some ''Invalid state parameter''\<rparr>"
    by (simp add: github_auth_status_def)
  have 3: "fst (github_auth_status (Some []) 1000 connected_backend) \<noteq> NotFound"
    unfolding 2 by (simp add: NotFound_def)
  from 1 2 3 show ?thesis by blast
qed

subsection \<open>The export walk\<close>

lemma createOrUpdateFile_ends_well:
  "createOrUpdateFile gh ownr rp pth cntnt msg w = (r, w', cs) \<Longrightarrow> ends_well r cs"
  by (cases r)
     (auto simp: createOrUpdateFile_def Let_def split: prod.splits sum.splits existing.splits if_splits)

lemma ends_well_append:
  "ends_well (Inr u) cs \<Longrightarrow> ends_well r cs2 \<Longrightarrow> ends_well r (cs @ cs2)"
  by (cases r) (auto simp: butlast_append)

lemma createFiles_ends_well:
  "ends_well (fst (createFiles gh ownr rp cur d w)) (snd (snd (createFiles gh ownr rp cur d w)))"
  "ends_well (fst (createEntries gh ownr rp cur d w)) (snd (snd (createEntries gh ownr rp cur d w)))"
proof (induction gh ownr rp cur d w and gh ownr rp cur d w rule: createFiles_createEntries.induct)
  case (1 gh ownr rp currentPath directoryObj w)
  obtain r w1 cs where e: "createEntries gh ownr rp currentPath directoryObj w = (r, w1, cs)"
    by (cases "createEntries gh ownr rp currentPath directoryObj w")
  show ?case
  proof (cases r)
    case (Inl x)
    then show ?thesis using "1.IH" e by (simp add: createFiles.simps)
  next
    case (Inr u)
    obtain r2 w2 cs2 where
      c: "createOrUpdateFile gh ownr rp ''README.md'' readmeContent ''Add README'' w1 = (r2, w2, cs2)"
      by (cases "createOrUpdateFile gh ownr rp ''README.md'' readmeContent ''Add README'' w1")
    have "ends_well (Inr u) cs" using "1.IH" e Inr by simp
    moreover have "ends_well r2 cs2" using c by (rule createOrUpdateFile_ends_well)
    ultimately have "ends_well r2 (cs @ cs2)" by (rule ends_well_append)
    then show ?thesis using e Inr c by (simp add: createFiles.simps)
  qed
next
  case (2 gh ownr rp currentPath w)
  show ?case by (simp add: createFiles.simps)
next
  case (3 gh ownr rp currentPath key val rest w)
  let ?fullPath = "if currentPath \<noteq> [] then currentPath @ ''/'' @ key else key"
  let ?first = "case val of
       File cntnt \<Rightarrow> createOrUpdateFile gh ownr rp ?fullPath cntnt (''Add '' @ ?fullPath) w
     | Directory d \<Rightarrow> createFiles gh ownr rp ?fullPath d w"
  obtain r w1 cs where f: "?first = (r, w1, cs)" by (cases ?first)
  have fw: "ends_well r cs"
  proof (cases val)
    case (File cntnt)
    with f show ?thesis by (auto intro: createOrUpdateFile_ends_well)
  next
    case (Directory d)
    with f "3.IH"(1) [OF refl Directory] show ?thesis by simp
  qed
  show ?case
  proof (cases r)
    case (Inl x)
    then show ?thesis using f fw by (simp add: createFiles.simps Let_def)
  next
    case (Inr u)
    obtain r2 w2 cs2 where
      e: "createEntries gh ownr rp currentPath rest w1 = (r2, w2, cs2)"
      by (cases "createEntries gh ownr rp currentPath rest w1")
    have "ends_well r2 cs2"
      using "3.IH"(2) [OF refl refl f [symmetric] refl Inr] e by simp
    with fw Inr have "ends_well r2 (cs @ cs2)" by (auto intro: ends_well_append)
    then show ?thesis using f Inr e by (simp add: createFiles.simps Let_def)
  qed
qed

lemma ends_well_failure:
  assumes "ends_well r (pre @ c # post)" "failure_of c = Some e"
  shows "post = [] \<and> r = Inl e"
proof (cases r)
  case (Inr u)
  with assms show ?thesis by simp
next
  case (Inl e')
  show ?thesis
  proof (cases post rule: rev_cases)
    case Nil
    with assms Inl show ?thesis by simp
  next
    case (snoc post' x)
    with assms Inl show ?thesis by (simp add: butlast_append)
  qed
qed

lemma github_export_ends_well:
  assumes "github_export gh req w = (resp, w', cs)"
  shows "(\<exists>e. ends_well (Inl e) cs \<and> resp = export_failure e) \<or>
         (cs = [] \<and> success resp \<noteq> Some True) \<or>
         (ends_well (Inr ()) cs \<and> success resp = Some True)"
proof (cases "projectData req")
  case None
  then have "github_export gh req w = (export_failure TypeError, w, [])"
    by (simp add: github_export_def)
  with assms have "cs = []" "resp = export_failure TypeError" by simp_all
  then show ?thesis by (simp add: export_failure_def)
next
  case (Some tree)
  have missing: ?thesis if "github_export gh req w = (missing_parameters, w, [])"
  proof -
    from that assms have "cs = []" "resp = missing_parameters" by simp_all
    then show ?thesis by (simp add: missing_parameters_def)
  qed
  have early: ?thesis if "github_export gh req w = (export_failure e, w1, [])" for e w1
  proof -
    from that assms have "cs = []" "resp = export_failure e" by simp_all
    then show ?thesis by (simp add: export_failure_def)
  qed
  show ?thesis
  proof (cases "export_token req")
    case None
    show ?thesis by (rule missing) (simp add: github_export_def Some None)
  next
    case tok: (Some tok)
    show ?thesis
    proof (cases "repoName req")
      case None
      show ?thesis by (rule missing) (simp add: github_export_def Some tok None)
    next
      case name: (Some name)
      show ?thesis
      proof (cases "tok = [] \<or> name = []")
        case True
        show ?thesis by (rule missing) (use True in \<open>simp add: github_export_def Some tok name\<close>)
      next
        case False
        obtain a w1 where a: "getAuthenticated gh w = (a, w1)"
          by (cases "getAuthenticated gh w")
        show ?thesis
        proof (cases a)
          case (Inl e)
          show ?thesis
            by (rule early [of e w1]) (use False in \<open>simp add: github_export_def Some tok name a Inl\<close>)
        next
          case login: (Inr login)
          let ?d = "case description req of None \<Rightarrow> ''Generated from Canva design''
                    | Some d \<Rightarrow> if d \<noteq> [] then d else ''Generated from Canva design''"
          obtain c w2 where c: "createForAuthenticatedUser gh name ?d w1 = (c, w2)"
            by (cases "createForAuthenticatedUser gh name ?d w1")
          show ?thesis
          proof (cases c)
            case (Inl e)
            show ?thesis
              by (rule early [of e w2])
                 (use False in \<open>simp add: github_export_def Some tok name a login c Inl\<close>)
          next
            case url: (Inr html_url)
            obtain r w3 cs3 where f: "createFiles gh login name [] tree w2 = (r, w3, cs3)"
              by (cases "createFiles gh login name [] tree w2")
            have ew: "ends_well r cs3"
              using createFiles_ends_well(1) [of gh login name "[]" tree w2] by (simp add: f)
            show ?thesis
            proof (cases r)
              case (Inl e)
              have "github_export gh req w = (export_failure e, w3, cs3)"
                using False by (simp add: github_export_def Some tok name a login c url f Inl)
              with assms have "cs = cs3" "resp = export_failure e" by simp_all
              with ew Inl show ?thesis by blast
            next
              case (Inr u)
              have "github_export gh req w =
                  (\<lparr>export_status = 200, success = Some True, repoUrl = Some html_url,
                    export_error = None\<rparr>, w3, cs3)"
                using False by (simp add: github_export_def Some tok name a login c url f Inr)
              with assms have "cs = cs3" "success resp = Some True" by auto
              with ew Inr show ?thesis by simp
            qed
          qed
        qed
      qed
    qed
  qed
qed

text \<open>
  Claim C2. Whatever the provider answers and whatever the tree: when a request of the
  export fails (the write of a file, or the lookup before it with a status other than
  404), that request is the last one made: no later file and no README is looked up or
  written, and the route answers status 500 with \<^verbatim>\<open>success: false\<close> and the message
  of that error.
\<close>

theorem export_aborts_at_failed_write:
  assumes "github_export gh req w = (resp, w', cs)"
    and "cs = pre @ c # post" and "failure_of c = Some e"
  shows "post = [] \<and> resp = export_failure e \<and> export_status resp = 500 \<and>
         success resp = Some False"
proof -
  from github_export_ends_well [OF assms(1)]
  consider (failed) e' where "ends_well (Inl e') (pre @ c # post)" "resp = export_failure e'"
    | (none) "pre @ c # post = []"
    | (ok) "ends_well (Inr ()) (pre @ c # post)"
    unfolding assms(2) by blast
  then have "post = [] \<and> resp = export_failure e"
  proof cases
    case failed
    from ends_well_failure [OF failed(1) assms(3)] have "post = []" "e' = e" by simp_all
    with failed(2) show ?thesis by simp
  next
    case none
    then show ?thesis by simp
  next
    case ok
    from ends_well_failure [OF ok assms(3)] show ?thesis by simp
  qed
  then show ?thesis by (simp add: export_failure_def)
qed

lemma small_export_run:
  "github_export (rejecting_provider ''d/b.txt'') small_export Map.empty =
     (export_failure (RequestError (Some 409)),
      [''a.txt'' \<mapsto> ''A''],
      [GetContent ''octocat'' ''site'' ''a.txt'' (Inl (RequestError (Some 404))),
       PutContent \<lparr>owner = ''octocat'', repo = ''site'', path = ''a.txt'',
         message = ''Add a.txt'', content = ''A'', sha = None\<rparr> (Inr ()),
       GetContent ''octocat'' ''site'' ''d/b.txt'' (Inl (RequestError (Some 404)))] @
      PutContent \<lparr>owner = ''octocat'', repo = ''site'', path = ''d/b.txt'',
         message = ''Add d/b.txt'', content = ''B'', sha = None\<rparr>
        (Inl (RequestError (Some 409))) # [])"
  by (simp add: github_export_def small_export_def small_tree_def rejecting_provider_def
      memory_provider_def createFiles.simps createOrUpdateFile_def Let_def)

text \<open>
  A tree of three files whose second write, \<^verbatim>\<open>d/b.txt\<close>, is rejected: the third file
  and the README are never requested.
\<close>

theorem export_aborts_at_failed_write_witness:
  "github_export (rejecting_provider ''d/b.txt'') small_export Map.empty =
     (export_failure (RequestError (Some 409)),
      [''a.txt'' \<mapsto> ''A''],
      [GetContent ''octocat'' ''site'' ''a.txt'' (Inl (RequestError (Some 404))),
       PutContent \<lparr>owner = ''octocat'', repo = ''site'', path = ''a.txt'',
         message = ''Add a.txt'', content = ''A'', sha = None\<rparr> (Inr ()),
       GetContent ''octocat'' ''site'' ''d/b.txt'' (Inl (RequestError (Some 404)))] @
      PutContent \<lparr>owner = ''octocat'', repo = ''site'', path = ''d/b.txt'',
         message = ''Add d/b.txt'', content = ''B'', sha = None\<rparr>
        (Inl (RequestError (Some 409))) # []) \<and>
   failure_of (PutContent \<lparr>owner = ''octocat'', repo = ''site'', path = ''d/b.txt'',
         message = ''Add d/b.txt'', content = ''B'', sha = None\<rparr>
        (Inl (RequestError (Some 409)))) = Some (RequestError (Some 409)) \<and>
   export_status (export_failure (RequestError (Some 409))) = 500 \<and>
   success (export_failure (RequestError (Some 409))) = Some False \<and>
   count_files small_tree = 3"
proof -
  have f: "failure_of (PutContent \<lparr>owner = ''octocat'', repo = ''site'', path = ''d/b.txt'',
         message = ''Add d/b.txt'', content = ''B'', sha = None\<rparr>
        (Inl (RequestError (Some 409)))) = Some (RequestError (Some 409))"
    by simp
  have n: "count_files small_tree = 3"
    by (simp add: small_tree_def)
  from export_aborts_at_failed_write [OF small_export_run refl f] small_export_run f n
  show ?thesis by blast
qed

subsection \<open>The upsert\<close>

text \<open>
  Claim C6. createOrUpdateFile first looks the path up. When the lookup finds a file
  (with a non-empty \<^verbatim>\<open>sha\<close>, as every blob has), the write request carries that
  \<^verbatim>\<open>sha\<close>; when it finds a directory or another kind of object, or fails with status
  404, the write request carries no \<^verbatim>\<open>sha\<close>; when it fails with any other error,
  that error is thrown and no write request is made.
\<close>

theorem createOrUpdateFile_upsert:
  assumes "getContent gh ownr rp pth w = (looked, w1)"
  shows
   "(\<exists>r w' rest. createOrUpdateFile gh ownr rp pth cntnt msg w =
        (r, w', GetContent ownr rp pth looked # rest)) \<and>
    (\<forall>s. looked = Inr (ExistingFile s) \<and> s \<noteq> [] \<longrightarrow>
       snd (snd (createOrUpdateFile gh ownr rp pth cntnt msg w)) =
         [GetContent ownr rp pth looked,
          PutContent \<lparr>owner = ownr, repo = rp, path = pth, message = msg, content = cntnt,
                      sha = Some s\<rparr>
            (fst (createOrUpdateFileContents gh
               \<lparr>owner = ownr, repo = rp, path = pth, message = msg, content = cntnt,
                sha = Some s\<rparr> w1))]) \<and>
    (looked = Inr ExistingDirectory \<or> looked = Inr ExistingOther \<or>
       (\<exists>e. looked = Inl e \<and> error_status e = Some 404) \<longrightarrow>
       snd (snd (createOrUpdateFile gh ownr rp pth cntnt msg w)) =
         [GetContent ownr rp pth looked,
          PutContent \<lparr>owner = ownr, repo = rp, path = pth, message = msg, content = cntnt,
                      sha = None\<rparr>
            (fst (createOrUpdateFileContents gh
               \<lparr>owner = ownr, repo = rp, path = pth, message = msg, content = cntnt,
                sha = None\<rparr> w1))]) \<and>
    (\<forall>e. looked = Inl e \<and> error_status e \<noteq> Some 404 \<longrightarrow>
       createOrUpdateFile gh ownr rp pth cntnt msg w =
         (Inl e, w1, [GetContent ownr rp pth looked]))"
proof -
  have 1: "\<exists>r w' rest. createOrUpdateFile gh ownr rp pth cntnt msg w =
        (r, w', GetContent ownr rp pth looked # rest)"
    using assms
    by (cases looked)
       (auto simp: createOrUpdateFile_def Let_def split: prod.splits existing.splits)
  have 2: "snd (snd (createOrUpdateFile gh ownr rp pth cntnt msg w)) =
         [GetContent ownr rp pth looked,
          PutContent \<lparr>owner = ownr, repo = rp, path = pth, message = msg, content = cntnt,
                      sha = Some s\<rparr>
            (fst (createOrUpdateFileContents gh
               \<lparr>owner = ownr, repo = rp, path = pth, message = msg, content = cntnt,
                sha = Some s\<rparr> w1))]"
    if "looked = Inr (ExistingFile s)" "s \<noteq> []" for s
    using assms that by (simp add: createOrUpdateFile_def Let_def split: prod.splits)
  have 3: "snd (snd (createOrUpdateFile gh ownr rp pth cntnt msg w)) =
         [GetContent ownr rp pth looked,
          PutContent \<lparr>owner = ownr, repo = rp, path = pth, message = msg, content = cntnt,
                      sha = None\<rparr>
            (fst (createOrUpdateFileContents gh
               \<lparr>owner = ownr, repo = rp, path = pth, message = msg, content = cntnt,
                sha = None\<rparr> w1))]"
    if "looked = Inr ExistingDirectory \<or> looked = Inr ExistingOther \<or>
       (\<exists>e. looked = Inl e \<and> error_status e = Some 404)"
    using assms that by (auto simp: createOrUpdateFile_def Let_def split: prod.splits)
  have 4: "createOrUpdateFile gh ownr rp pth cntnt msg w =
         (Inl e, w1, [GetContent ownr rp pth looked])"
    if "looked = Inl e" "error_status e \<noteq> Some 404" for e
    using assms that by (simp add: createOrUpdateFile_def Let_def)
  from 1 2 3 4 show ?thesis by blast
qed

text \<open>Writing the README of a repository that has one.\<close>

theorem createOrUpdateFile_upsert_witness:
  "getContent memory_provider ''octocat'' ''site'' ''README.md'' [''README.md'' \<mapsto> ''old'']
     = (Inr (ExistingFile ''sha-README.md''), [''README.md'' \<mapsto> ''old'']) \<and>
   snd (snd (createOrUpdateFile memory_provider ''octocat'' ''site'' ''README.md'' ''new''
       ''Add README'' [''README.md'' \<mapsto> ''old''])) =
     [GetContent ''octocat'' ''site'' ''README.md'' (Inr (ExistingFile ''sha-README.md'')),
      PutContent \<lparr>owner = ''octocat'', repo = ''site'', path = ''README.md'',
        message = ''Add README'', content = ''new'', sha = Some ''sha-README.md''\<rparr> (Inr ())]"
proof -
  have g: "getContent memory_provider ''octocat'' ''site'' ''README.md'' [''README.md'' \<mapsto> ''old'']
     = (Inr (ExistingFile ''sha-README.md''), [''README.md'' \<mapsto> ''old''])"
    by (simp add: memory_provider_def)
  from createOrUpdateFile_upsert [OF g, of "''new''" "''Add README''"]
  have "\<forall>s. Inr (ExistingFile ''sha-README.md'') = Inr (ExistingFile s) \<and> s \<noteq> [] \<longrightarrow>
       snd (snd (createOrUpdateFile memory_provider ''octocat'' ''site'' ''README.md'' ''new''
         ''Add README'' [''README.md'' \<mapsto> ''old''])) =
         [GetContent ''octocat'' ''site'' ''README.md'' (Inr (ExistingFile ''sha-README.md'')),
          PutContent \<lparr>owner = ''octocat'', repo = ''site'', path = ''README.md'',
            message = ''Add README'', content = ''new'', sha = Some s\<rparr>
            (fst (createOrUpdateFileContents memory_provider
               \<lparr>owner = ''octocat'', repo = ''site'', path = ''README.md'',
                message = ''Add README'', content = ''new'', sha = Some s\<rparr>
               [''README.md'' \<mapsto> ''old'']))]"
    by blast
  from this [rule_format, of "''sha-README.md''"] g show ?thesis
    by (simp add: memory_provider_def)
qed

subsection \<open>The README\<close>

text \<open>
  What an export that succeeds writes, for any provider and tree: every file once, in
  the order of the walk, and \<^verbatim>\<open>README.md\<close> once for the root and once more for
  every directory below it.
\<close>

lemma written_paths_append: "written_paths (cs @ cs') = written_paths cs @ written_paths cs'"
  by (induction cs rule: written_paths.induct) simp_all

lemma createOrUpdateFile_written:
  "createOrUpdateFile gh ownr rp pth cntnt msg w = (Inr u, w', cs) \<Longrightarrow> written_paths cs = [pth]"
  by (auto simp: createOrUpdateFile_def Let_def split: prod.splits sum.splits existing.splits if_splits)

lemma createFiles_written:
  "fst (createFiles gh ownr rp cur d w) = Inr u \<Longrightarrow>
     written_paths (snd (snd (createFiles gh ownr rp cur d w))) = dir_paths cur d"
  "fst (createEntries gh ownr rp cur d w) = Inr u \<Longrightarrow>
     written_paths (snd (snd (createEntries gh ownr rp cur d w))) = entry_paths cur d"
proof (induction gh ownr rp cur d w and gh ownr rp cur d w rule: createFiles_createEntries.induct)
  case (1 gh ownr rp currentPath directoryObj w)
  obtain r w1 cs where e: "createEntries gh ownr rp currentPath directoryObj w = (r, w1, cs)"
    by (cases "createEntries gh ownr rp currentPath directoryObj w")
  obtain r2 w2 cs2 where
    c: "createOrUpdateFile gh ownr rp ''README.md'' readmeContent ''Add README'' w1 = (r2, w2, cs2)"
    by (cases "createOrUpdateFile gh ownr rp ''README.md'' readmeContent ''Add README'' w1")
  from "1.prems" e c have r: "r = Inr ()" and r2: "r2 = Inr ()"
    by (auto simp: createFiles.simps split: sum.splits)
  have "written_paths cs = entry_paths currentPath directoryObj"
    using "1.IH" e r by simp
  moreover have "written_paths cs2 = [''README.md'']"
    using c r2 by (auto intro: createOrUpdateFile_written)
  ultimately show ?case
    using e r c by (simp add: createFiles.simps dir_paths.simps written_paths_append)
next
  case (2 gh ownr rp currentPath w)
  show ?case by (simp add: createFiles.simps)
next
  case (3 gh ownr rp currentPath key val rest w)
  let ?fullPath = "if currentPath \<noteq> [] then currentPath @ ''/'' @ key else key"
  let ?first = "case val of
       File cntnt \<Rightarrow> createOrUpdateFile gh ownr rp ?fullPath cntnt (''Add '' @ ?fullPath) w
     | Directory d \<Rightarrow> createFiles gh ownr rp ?fullPath d w"
  obtain r w1 cs where f: "?first = (r, w1, cs)" by (cases ?first)
  obtain r2 w2 cs2 where
    e: "createEntries gh ownr rp currentPath rest w1 = (r2, w2, cs2)"
    by (cases "createEntries gh ownr rp currentPath rest w1")
  from "3.prems" f e have r: "r = Inr ()" and r2: "r2 = Inr ()"
    by (auto simp: createFiles.simps Let_def split: sum.splits)
  have first: "written_paths cs =
      (case val of File c \<Rightarrow> [?fullPath] | Directory d \<Rightarrow> dir_paths ?fullPath d)"
  proof (cases val)
    case (File cntnt)
    with f r show ?thesis by (auto intro: createOrUpdateFile_written)
  next
    case (Directory d)
    with f r "3.IH"(1) [OF refl Directory] show ?thesis by simp
  qed
  have "written_paths cs2 = entry_paths currentPath rest"
    using "3.IH"(2) [OF refl refl f [symmetric] refl r] e r2 by simp
  with first show ?case
    using f r e by (simp add: createFiles.simps dir_paths.simps Let_def written_paths_append)
qed

lemma length_paths:
  "length (dir_paths cur d) = Suc (count_files d + count_dirs d)"
  "length (entry_paths cur d) = count_files d + count_dirs d"
proof (induction cur d and cur d rule: dir_paths_entry_paths.induct)
  case (1 cur d)
  then show ?case by (simp add: dir_paths.simps)
next
  case (2 cur)
  show ?case by (simp add: dir_paths.simps)
next
  case (3 cur key val rest)
  then show ?case
    by (cases val) (simp_all add: dir_paths.simps Let_def)
qed

lemma successful_export_walk:
  assumes "github_export gh req w = (resp, w', cs)" and "success resp = Some True"
  shows "\<exists>tree login name w2. projectData req = Some tree \<and>
           createFiles gh login name [] tree w2 = (Inr (), w', cs)"
  using assms
  by (auto simp: github_export_def export_failure_def missing_parameters_def
        split: option.splits if_splits prod.splits sum.splits)

lemma successful_export_writes:
  assumes "github_export gh req w = (resp, w', cs)" and "success resp = Some True"
  shows "\<exists>tree. projectData req = Some tree \<and> written_paths cs = dir_paths [] tree \<and>
           length (written_paths cs) = count_files tree + Suc (count_dirs tree)"
proof -
  from successful_export_walk [OF assms] obtain tree login name w2 where
    t: "projectData req = Some tree" and
    c: "createFiles gh login name [] tree w2 = (Inr (), w', cs)" by blast
  from createFiles_written(1) [of gh login name "[]" tree w2 "()"] c
  have "written_paths cs = dir_paths [] tree" by simp
  with t show ?thesis by (simp add: length_paths)
qed

text \<open>
  Claim C1 does not hold of the code. The README is written at the end of createFiles,
  which calls itself for every directory: exporting the scenario's tree, which has six
  files, to a provider that accepts every request succeeds with ten writes, four of them
  of \<^verbatim>\<open>README.md\<close>, and two files are written after the first README.
\<close>

theorem readme_written_per_directory:
  "count_files scenario_tree = 6 \<and>
   fst (github_export memory_provider scenario_export Map.empty) =
     \<lparr>export_status = 200, success = Some True,
      repoUrl = Some ''https://github.com/octocat/site'', export_error = None\<rparr> \<and>
   written_paths (snd (snd (github_export memory_provider scenario_export Map.empty))) =
     [''package.json'', ''vite.config.js'', ''index.html'',
      ''src/components/Nav.jsx'', ''README.md'',
      ''src/styles/index.css'', ''README.md'',
      ''src/main.jsx'', ''README.md'',
      ''README.md'']"
  by (simp add: github_export_def scenario_export_def scenario_tree_def skeleton_files_def
      memory_provider_def createFiles.simps createOrUpdateFile_def Let_def)

end
